theory Spec2Isabelle
  imports Complex_Main "HOL-Library.Word" "HOL-Library.Multiset" "HOL-Library.Sublist"
begin

section \<open>Data model (types.ts)\<close>

text \<open>
  An \<open>ArrayBuffer\<close> / \<open>Uint8Array\<close> is a list of bytes. A browser \<open>File\<close> carries its
  name, MIME type and size; \<open>fdata\<close> is what a \<open>FileReader\<close> delivers for it: the bytes, or
  \<open>None\<close> when the reader fires \<open>onerror\<close>.
\<close>

type_synonym bytes = "8 word list"

record File =
  fname :: string
  ftype :: string
  fsize :: nat
  fdata :: "bytes option"

text \<open>The enum \<open>FileType\<close>: \<open>JPG\<close> and \<open>JPEG\<close> are the same string.\<close>

definition FileType_PDF :: string where "FileType_PDF = ''application/pdf''"
definition FileType_PNG :: string where "FileType_PNG = ''image/png''"
definition FileType_JPG :: string where "FileType_JPG = ''image/jpeg''"
definition FileType_JPEG :: string where "FileType_JPEG = ''image/jpeg''"

text \<open>
  Interface \<open>UploadedFile\<close> (fields \<open>id\<close>, \<open>file\<close>, \<open>name\<close>, \<open>type\<close>, \<open>size\<close>,
  \<open>previewUrl?\<close>; the selectors carry a \<open>u\<close> so that they do not hide \<open>id\<close> and \<open>size\<close>).
\<close>

record UploadedFile =
  uid :: string
  ufile :: File
  uname :: string
  utype :: string
  usize :: nat
  previewUrl :: "string option"

record ProcessingStatus =
  isProcessing :: bool
  message :: string
  error :: "string option"

section \<open>Numbers\<close>

text \<open>
  JavaScript numbers are IEEE-754 doubles. A finite double is taken as the real number it
  stands for. \<open>round_double\<close> rounds a real number to the nearest double, ties to even: the
  significand has 53 bits, and below \<open>2^-1022\<close> the spacing stays that of the smallest
  normal numbers. A decimal literal of the program is the double nearest to it, and every
  arithmetic operation is the exact operation followed by this rounding. Magnitudes of
  \<open>2^1024\<close> and more, which round to an infinity, do not arise here: the operands of the
  routine are the page size, the margin and image dimensions of 32 bits.
\<close>

definition pow2 :: "int \<Rightarrow> real" where
  "pow2 e = (if 0 \<le> e then 2 ^ nat e else 1 / 2 ^ nat (- e))"

text \<open>
  \<open>floor_log2 x lo hi\<close> searches, between \<open>lo\<close> and \<open>hi\<close>, the exponent \<open>e\<close> with
  \<open>2^e \<le> x < 2^(e+1)\<close>.
\<close>

function floor_log2 :: "real \<Rightarrow> int \<Rightarrow> int \<Rightarrow> int" where
  "floor_log2 x lo hi =
     (if hi \<le> lo + 1 then lo
      else (let mid = (lo + hi) div 2
            in if pow2 mid \<le> x then floor_log2 x mid hi else floor_log2 x lo mid))"
  by pat_completeness auto
termination
  by (relation "measure (\<lambda>(x, lo, hi). nat (hi - lo))") auto

definition round_half_even :: "real \<Rightarrow> int" where
  "round_half_even z =
     (let k = \<lfloor>z\<rfloor>; d = z - of_int k
      in if d < 1 / 2 then k else if 1 / 2 < d then k + 1 else if even k then k else k + 1)"

definition round_double :: "real \<Rightarrow> real" where
  "round_double x =
     (if x = 0 then 0
      else (let e = max (floor_log2 \<bar>x\<bar> (- 1075) 1024) (- 1022);
                q = pow2 (e - 52)
            in sgn x * of_int (round_half_even (\<bar>x\<bar> / q)) * q))"

definition minus_double :: "real \<Rightarrow> real \<Rightarrow> real" where
  "minus_double a b = round_double (a - b)"

definition times_double :: "real \<Rightarrow> real \<Rightarrow> real" where
  "times_double a b = round_double (a * b)"

definition divide_double :: "real \<Rightarrow> real \<Rightarrow> real" where
  "divide_double a b = round_double (a / b)"

text \<open>
  The one place where the routine can leave the finite numbers is a division by a natural
  dimension of zero: the dividend is a positive printable extent and the divisor is not
  negative, so the quotient is then \<open>+Infinity\<close>. \<open>Math.min\<close> of two such quotients and the
  finite \<open>1\<close> is finite.
\<close>

datatype number = Num real | Infinity

definition divide_number :: "real \<Rightarrow> real \<Rightarrow> number" where
  "divide_number a b = (if b = 0 then Infinity else Num (divide_double a b))"

fun Math_min :: "number \<Rightarrow> number \<Rightarrow> real \<Rightarrow> real" where
  "Math_min (Num a) (Num b) c = min a (min b c)"
| "Math_min (Num a) Infinity c = min a c"
| "Math_min Infinity (Num b) c = min b c"
| "Math_min Infinity Infinity c = c"

section \<open>The document model of pdf-lib\<close>

text \<open>
  pdf-lib is an external library. Its document model is kept as small as the merge routine
  needs: an embedded image has natural pixel dimensions (the PNG header holds them in 32
  bits, the JPEG header in 16), a page has a size and an ordered list of things drawn on
  it, a document has an ordered list of pages and a pool of embedded images.
\<close>

record PDFImage =
  imgWidth :: "32 word"
  imgHeight :: "32 word"
  imgData :: bytes

datatype drawing =
  SourceContent bytes
  | DrawImage (drawn: PDFImage) (drawX: real) (drawY: real) (drawWidth: real) (drawHeight: real)

record PDFPage =
  pageWidth :: real
  pageHeight :: real
  contents :: "drawing list"

record PDFDocument =
  pages :: "PDFPage list"
  images :: "PDFImage list"

text \<open>
  The operations of the library that depend on the bytes they are given, and that can
  throw, are parameters of the model: \<open>PDFDocument.load\<close>, \<open>embedPng\<close>, \<open>embedJpg\<close> and
  the serialisation of a document into bytes. \<open>Inl msg\<close> is the exception the library
  throws. None of them is given anything but bytes or the document.
\<close>

record PdfLib =
  load :: "bytes \<Rightarrow> string + PDFDocument"
  embedPng :: "bytes \<Rightarrow> string + PDFImage"
  embedJpg :: "bytes \<Rightarrow> string + PDFImage"
  serialize :: "PDFDocument \<Rightarrow> string + bytes"

text \<open>
  Modelled from the spec: the library's \<open>create-empty-document\<close>, \<open>copy-pages(srcDoc,
  pageIndices) -> pages\<close>, \<open>add-page(page-or-size)\<close> and \<open>draw-image(page, image, x, y, w,
  h)\<close>, which are not under src/. A page object handed out by \<open>addPage\<close> is shared with the
  document, so a page handle is the page's index in the document. \<open>copyPages\<close> is only ever
  called with \<open>getPageIndices\<close> of the same document; an index beyond the source's pages
  would yield no page.
\<close>

definition PDFDocument_create :: PDFDocument where
  "PDFDocument_create = \<lparr>pages = [], images = []\<rparr>"

definition getPageIndices :: "PDFDocument \<Rightarrow> nat list" where
  "getPageIndices doc = [0..<length (pages doc)]"

definition copyPages :: "PDFDocument \<Rightarrow> nat list \<Rightarrow> PDFPage list" where
  "copyPages srcDoc indices = map (\<lambda>i. pages srcDoc ! i) (filter (\<lambda>i. i < length (pages srcDoc)) indices)"

definition addPage :: "PDFDocument \<Rightarrow> PDFPage \<Rightarrow> PDFDocument" where
  "addPage doc page = doc\<lparr>pages := pages doc @ [page]\<rparr>"

definition PageSizes_A4 :: "real \<times> real" where
  "PageSizes_A4 = (round_double 595.28, round_double 841.89)"

definition addPageOfSize :: "PDFDocument \<Rightarrow> real \<times> real \<Rightarrow> PDFDocument \<times> nat" where
  "addPageOfSize doc sz =
     (addPage doc \<lparr>pageWidth = fst sz, pageHeight = snd sz, contents = []\<rparr>, length (pages doc))"

definition getSize :: "PDFDocument \<Rightarrow> nat \<Rightarrow> real \<times> real" where
  "getSize doc page = (pageWidth (pages doc ! page), pageHeight (pages doc ! page))"

definition registerImage :: "PDFDocument \<Rightarrow> PDFImage \<Rightarrow> PDFDocument" where
  "registerImage doc img = doc\<lparr>images := images doc @ [img]\<rparr>"

definition drawImage :: "PDFDocument \<Rightarrow> nat \<Rightarrow> PDFImage \<Rightarrow> real \<Rightarrow> real \<Rightarrow> real \<Rightarrow> real \<Rightarrow> PDFDocument" where
  "drawImage doc page img x y w h =
     doc\<lparr>pages := (pages doc)[page := (pages doc ! page)
            \<lparr>contents := contents (pages doc ! page) @ [DrawImage img x y w h]\<rparr>]\<rparr>"

text \<open>\<open>image.scale(factor)\<close>: the natural dimensions times the factor.\<close>

definition scale_image :: "PDFImage \<Rightarrow> real \<Rightarrow> real \<times> real" where
  "scale_image img factor =
     (times_double (real (unat (imgWidth img))) factor, times_double (real (unat (imgHeight img))) factor)"

text \<open>
  \<open>save()\<close>, as the routine calls it, with the library's default options: a document
  that has no page is first given one blank page of the default size, which is
  \<open>PageSizes.A4\<close> (the option \<open>addDefaultPage\<close>); then the document is serialised.
\<close>

definition savedDocument :: "PDFDocument \<Rightarrow> PDFDocument" where
  "savedDocument doc = (if length (pages doc) = 0 then fst (addPageOfSize doc PageSizes_A4) else doc)"

definition save :: "PdfLib \<Rightarrow> PDFDocument \<Rightarrow> string + bytes" where
  "save lib doc = serialize lib (savedDocument doc)"

section \<open>services/pdfService: the merge routine\<close>

datatype error = FileReaderError | PdfLibError string

definition readFileAsArrayBuffer :: "File \<Rightarrow> error + bytes" where
  "readFileAsArrayBuffer file = (case fdata file of None \<Rightarrow> Inl FileReaderError | Some b \<Rightarrow> Inr b)"

text \<open>
  Lines 46 to 62 of the routine: from the page size and the image, the position and the
  displayed dimensions \<open>(x, y, displayWidth, displayHeight)\<close>, each operation in double
  arithmetic.
\<close>

definition imagePlacement :: "real \<times> real \<Rightarrow> PDFImage \<Rightarrow> real \<times> real \<times> real \<times> real" where
  "imagePlacement sz img =
     (let width = fst sz; height = snd sz;
          margin = 40;
          maxWidth = minus_double width (times_double margin 2);
          maxHeight = minus_double height (times_double margin 2);
          imgDims = scale_image img 1;
          scaleWidth = divide_number maxWidth (fst imgDims);
          scaleHeight = divide_number maxHeight (snd imgDims);
          scale = Math_min scaleWidth scaleHeight 1;
          displayWidth = times_double (fst imgDims) scale;
          displayHeight = times_double (snd imgDims) scale;
          x = divide_double (minus_double width displayWidth) 2;
          y = divide_double (minus_double height displayHeight) 2
      in (x, y, displayWidth, displayHeight))"

text \<open>The body of the \<open>for\<close> loop: one file record, applied to the document built so far.\<close>

definition processFile :: "PdfLib \<Rightarrow> PDFDocument \<Rightarrow> UploadedFile \<Rightarrow> error + PDFDocument" where
  "processFile lib mergedPdf fileItem =
     (case readFileAsArrayBuffer (ufile fileItem) of
        Inl e \<Rightarrow> Inl e
      | Inr fileBuffer \<Rightarrow>
          if utype fileItem = FileType_PDF then
            (case load lib fileBuffer of
               Inl msg \<Rightarrow> Inl (PdfLibError msg)
             | Inr pdf \<Rightarrow>
                 let copiedPages = copyPages pdf (getPageIndices pdf)
                 in Inr (foldl addPage mergedPdf copiedPages))
          else if utype fileItem = FileType_PNG \<or> utype fileItem = FileType_JPG
                  \<or> utype fileItem = FileType_JPEG then
            (case (if utype fileItem = FileType_PNG then embedPng lib fileBuffer
                   else embedJpg lib fileBuffer) of
               Inl msg \<Rightarrow> Inl (PdfLibError msg)
             | Inr img \<Rightarrow>
                 let (doc, page) = addPageOfSize (registerImage mergedPdf img) PageSizes_A4;
                     (x, y, displayWidth, displayHeight) = imagePlacement (getSize doc page) img
                 in Inr (drawImage doc page img x y displayWidth displayHeight))
          else Inr mergedPdf)"

fun mergeLoop :: "PdfLib \<Rightarrow> PDFDocument \<Rightarrow> UploadedFile list \<Rightarrow> error + PDFDocument" where
  "mergeLoop lib mergedPdf [] = Inr mergedPdf"
| "mergeLoop lib mergedPdf (fileItem # rest) =
     (case processFile lib mergedPdf fileItem of
        Inl e \<Rightarrow> Inl e
      | Inr doc \<Rightarrow> mergeLoop lib doc rest)"

definition generateMergedPdf :: "PdfLib \<Rightarrow> UploadedFile list \<Rightarrow> error + bytes" where
  "generateMergedPdf lib files =
     (case mergeLoop lib PDFDocument_create files of
        Inl e \<Rightarrow> Inl e
      | Inr mergedPdf \<Rightarrow>
          (case save lib mergedPdf of
             Inl msg \<Rightarrow> Inl (PdfLibError msg)
           | Inr pdfBytes \<Rightarrow> Inr pdfBytes))"

section \<open>App.tsx: the ordered file list\<close>





text \<open>
  Modelled from the spec: \<open>arrayMove\<close> of the drag-and-drop library, which is not under
  src/: "move element from index i to index j in an ordered sequence, all other elements
  keep relative order". It works on a copy with two calls of \<open>splice\<close>: the element at
  \<open>from\<close> is taken out and put back at \<open>to\<close>, a negative \<open>to\<close> counting from the end of the
  array as it was. \<open>splice_start\<close> is how \<open>splice\<close> reads its start index. Where nothing is
  taken out (on the empty array), JavaScript puts \<open>undefined\<close> back: a slot of the result is
  \<open>Some\<close> element, or \<open>None\<close> for \<open>undefined\<close>.
\<close>

definition splice_start :: "int \<Rightarrow> nat \<Rightarrow> nat" where
  "splice_start start len = (if start < 0 then nat (max (int len + start) 0) else min (nat start) len)"

definition arrayMove :: "'a list \<Rightarrow> int \<Rightarrow> int \<Rightarrow> 'a option list" where
  "arrayMove array from to =
     (let target = (if to < 0 then int (length array) + to else to);
          s = splice_start from (length array);
          removed = (if s < length array then Some (array ! s) else None);
          newArray = take s array @ drop (s + 1) array;
          t = splice_start target (length newArray)
      in map Some (take t newArray) @ [removed] @ map Some (drop t newArray))"



definition removeFile :: "string \<Rightarrow> UploadedFile list \<Rightarrow> UploadedFile list" where
  "removeFile i prev = filter (\<lambda>f. uid f \<noteq> i) prev"

section \<open>App.tsx: handleMerge\<close>

text \<open>
  The component's state, and what a run of \<open>handleMerge\<close> does besides changing it, in
  order: the calls of \<open>setStatus\<close>, of the merge routine, of \<open>downloadPdf\<close>, of
  \<open>console.error\<close>, and the timer that clears the success message. The waits are not
  modelled, and \<open>downloadPdf\<close>, which only builds a link and clicks it, is taken not to
  throw.
\<close>

record AppState =
  files :: "UploadedFile list"
  status :: ProcessingStatus

datatype effect =
  SetStatus ProcessingStatus
  | Call_generateMergedPdf "UploadedFile list"
  | Call_downloadPdf bytes string
  | ConsoleError error
  | SetTimeout nat ProcessingStatus

fun digits :: "nat \<Rightarrow> string" where
  "digits n = (if n < 10 then [''0123456789'' ! n] else digits (n div 10) @ [''0123456789'' ! (n mod 10)])"

definition toString :: "int \<Rightarrow> string" where
  "toString n = (if n < 0 then CHR ''-'' # digits (nat (- n)) else digits (nat n))"

text \<open>The messages, in UTF-8 (they are Spanish: "imagenes" with an acute a, and an inverted
  exclamation mark before "Listo").\<close>

definition msgProcessing :: string where
  "msgProcessing = ''Procesando documentos e im'' @ [CHR 0xC3, CHR 0xA1] @ ''genes...''"

definition msgFinalizing :: string where
  "msgFinalizing = ''Finalizando archivo...''"

definition msgDone :: string where
  "msgDone = [CHR 0xC2, CHR 0xA1] @ ''Listo! Tu PDF se ha descargado.''"

definition msgError :: string where
  "msgError = ''Hubo un error al crear el PDF. Aseg'' @ [CHR 0xC3, CHR 0xBA]
     @ ''rate de que los archivos no est'' @ [CHR 0xC3, CHR 0xA9] @ ''n da''
     @ [CHR 0xC3, CHR 0xB1] @ ''ados.''"

text \<open>\<open>handleMerge\<close>, with the clock's reading \<open>now\<close> of \<open>new Date().getTime()\<close>.\<close>

definition handleMerge :: "PdfLib \<Rightarrow> int \<Rightarrow> AppState \<Rightarrow> AppState \<times> effect list" where
  "handleMerge lib now s =
     (if length (files s) = 0 then (s, [])
      else
        let processing = \<lparr>isProcessing = True, message = msgProcessing, error = None\<rparr> in
        (case generateMergedPdf lib (files s) of
           Inr pdfBytes \<Rightarrow>
             let finalizing = \<lparr>isProcessing = True, message = msgFinalizing, error = None\<rparr>;
                 done = \<lparr>isProcessing = False, message = msgDone, error = None\<rparr>;
                 cleared = \<lparr>isProcessing = False, message = [], error = None\<rparr>
             in (s\<lparr>status := done\<rparr>,
                 [SetStatus processing,
                  Call_generateMergedPdf (files s),
                  SetStatus finalizing,
                  Call_downloadPdf pdfBytes (''fusion_documento_'' @ toString now @ ''.pdf''),
                  SetStatus done,
                  SetTimeout 5000 cleared])
         | Inl e \<Rightarrow>
             let failed = \<lparr>isProcessing = False, message = [], error = Some msgError\<rparr>
             in (s\<lparr>status := failed\<rparr>,
                 [SetStatus processing,
                  Call_generateMergedPdf (files s),
                  ConsoleError e,
                  SetStatus failed])))"

section \<open>The merge routine over a store of objects\<close>

text \<open>
  In JavaScript the array \<open>files\<close> and the file records in it are objects that the routine
  is handed by reference, and that it could write to. To state what it leaves untouched,
  here is the routine once more over a store: an address is an index into the list of
  objects, the array holds the addresses of its records, and the document \<open>mergedPdf\<close>
  that the routine creates is a new object at the end of the store. The \<open>for ... of\<close> loop
  reads the array and its length anew at each step, by the position \<open>i\<close> of its iterator.
  \<open>save\<close> leaves in the document the default page it gives a document without pages.
  The outcome \<open>None\<close> is a run on a store where an address holds no object of the kind
  the routine expects; the store comes back with the outcome.
\<close>

datatype object = FileRecord UploadedFile | FilesArray "nat list" | Document PDFDocument

type_synonym heap = "object list"

definition objectAt :: "heap \<Rightarrow> nat \<Rightarrow> object option" where
  "objectAt h a = (if a < length h then Some (h ! a) else None)"

function mergeLoop_heap :: "PdfLib \<Rightarrow> nat \<Rightarrow> nat \<Rightarrow> nat \<Rightarrow> heap \<Rightarrow> (error + unit) option \<times> heap" where
  "mergeLoop_heap lib mergedPdf filesRef i h =
     (case objectAt h filesRef of
        Some (FilesArray items) \<Rightarrow>
          if i < length items then
            (case (objectAt h (items ! i), objectAt h mergedPdf) of
               (Some (FileRecord fileItem), Some (Document doc)) \<Rightarrow>
                 (case processFile lib doc fileItem of
                    Inl e \<Rightarrow> (Some (Inl e), h)
                  | Inr doc' \<Rightarrow> mergeLoop_heap lib mergedPdf filesRef (i + 1) (h[mergedPdf := Document doc']))
             | _ \<Rightarrow> (None, h))
          else (Some (Inr ()), h)
      | _ \<Rightarrow> (None, h))"
  by pat_completeness auto
termination
proof (relation "measure (\<lambda>(lib, mergedPdf, filesRef, i, h).
          case objectAt h filesRef of Some (FilesArray items) \<Rightarrow> length items - i | _ \<Rightarrow> 0)")
  show "wf (measure (\<lambda>(lib, mergedPdf, filesRef, i, h).
          case objectAt h filesRef of Some (FilesArray items) \<Rightarrow> length items - i | _ \<Rightarrow> 0))"
    by simp
next
  fix lib :: PdfLib and mergedPdf filesRef i :: nat and h :: heap and x2 x2a x y x2b x1 x2c x2d x1a x2e
  assume a: "objectAt h filesRef = Some x2" "x2 = FilesArray x2a" "i < length x2a"
  have "(case objectAt (h[mergedPdf := Document x2e]) filesRef of
           Some (FilesArray items) \<Rightarrow> length items - Suc i | _ \<Rightarrow> 0) < length x2a - i"
  proof (cases "mergedPdf = filesRef")
    case True
    then show ?thesis using a by (simp add: objectAt_def split: if_splits)
  next
    case False
    then have "objectAt (h[mergedPdf := Document x2e]) filesRef = objectAt h filesRef"
      by (simp add: objectAt_def)
    then show ?thesis using a by simp
  qed
  then show "((lib, mergedPdf, filesRef, i + 1, h[mergedPdf := Document x2e]), lib, mergedPdf, filesRef, i, h)
        \<in> measure (\<lambda>(lib, mergedPdf, filesRef, i, h).
          case objectAt h filesRef of Some (FilesArray items) \<Rightarrow> length items - i | _ \<Rightarrow> 0)"
    using a by simp
qed

definition generateMergedPdf_heap :: "PdfLib \<Rightarrow> nat \<Rightarrow> heap \<Rightarrow> (error + bytes) option \<times> heap" where
  "generateMergedPdf_heap lib filesRef h =
     (let mergedPdf = length h;
          h1 = h @ [Document PDFDocument_create]
      in case mergeLoop_heap lib mergedPdf filesRef 0 h1 of
           (Some (Inr u), h2) \<Rightarrow>
             (case objectAt h2 mergedPdf of
                Some (Document doc) \<Rightarrow>
                  (let h3 = h2[mergedPdf := Document (savedDocument doc)]
                   in case save lib doc of
                        Inl msg \<Rightarrow> (Some (Inl (PdfLibError msg)), h3)
                      | Inr pdfBytes \<Rightarrow> (Some (Inr pdfBytes), h3))
              | _ \<Rightarrow> (None, h2))
         | (Some (Inl e), h2) \<Rightarrow> (Some (Inl e), h2)
         | (None, h2) \<Rightarrow> (None, h2))"

text \<open>
  The list of file records that the array at an address stands for, when each of its slots
  refers to a file record.
\<close>

definition filesOf :: "heap \<Rightarrow> nat \<Rightarrow> UploadedFile list option" where
  "filesOf h filesRef =
     (case objectAt h filesRef of
        Some (FilesArray items) \<Rightarrow>
          if list_all (\<lambda>a. case objectAt h a of Some (FileRecord r) \<Rightarrow> True | _ \<Rightarrow> False) items
          then Some (map (\<lambda>a. case objectAt h a of Some (FileRecord r) \<Rightarrow> r) items)
          else None
      | _ \<Rightarrow> None)"

section \<open>The vocabulary of the specification\<close>

text \<open>
  What the specification calls a valid PDF, a valid image, its pages, the scale factor and
  the reference page size, written from its words, to state the properties with.
\<close>

definition parsesAsPdf :: "PdfLib \<Rightarrow> UploadedFile \<Rightarrow> bool" where
  "parsesAsPdf lib f =
     (utype f = FileType_PDF \<and>
      (case fdata (ufile f) of
         None \<Rightarrow> False
       | Some b \<Rightarrow> (case load lib b of Inl _ \<Rightarrow> False | Inr _ \<Rightarrow> True)))"

definition sourcePages :: "PdfLib \<Rightarrow> UploadedFile \<Rightarrow> PDFPage list" where
  "sourcePages lib f =
     (case fdata (ufile f) of
        None \<Rightarrow> []
      | Some b \<Rightarrow> (case load lib b of Inl _ \<Rightarrow> [] | Inr pdf \<Rightarrow> pages pdf))"

definition embedsAs :: "PdfLib \<Rightarrow> UploadedFile \<Rightarrow> PDFImage \<Rightarrow> bool" where
  "embedsAs lib f img =
     (case fdata (ufile f) of
        None \<Rightarrow> False
      | Some b \<Rightarrow>
          (utype f = FileType_PNG \<and> embedPng lib b = Inr img) \<or>
          (utype f = FileType_JPEG \<and> embedJpg lib b = Inr img))"

text \<open>
  The document that a returned buffer holds is the document that was serialised into it:
  \<open>serialized lib doc\<close> is what the routine returns when \<open>doc\<close> is that document.
\<close>

definition serialized :: "PdfLib \<Rightarrow> PDFDocument \<Rightarrow> error + bytes" where
  "serialized lib doc =
     (case serialize lib doc of Inl msg \<Rightarrow> Inl (PdfLibError msg) | Inr pdfBytes \<Rightarrow> Inr pdfBytes)"

text \<open>The reference page size, as the doubles the literals stand for, and a blank page of it.\<close>

definition A4_width :: real where "A4_width = round_double 595.28"
definition A4_height :: real where "A4_height = round_double 841.89"

definition blankA4 :: PDFPage where
  "blankA4 = \<lparr>pageWidth = A4_width, pageHeight = A4_height, contents = []\<rparr>"

text \<open>
  The printable extents \<open>pageWidth - 2*margin\<close> and \<open>pageHeight - 2*margin\<close> with the
  margin of 40, and the scale factor \<open>min(1, (pageWidth - 2*margin)/imageWidth,
  (pageHeight - 2*margin)/imageHeight)\<close>, each operation in double arithmetic.
\<close>

definition printableWidth :: real where
  "printableWidth = minus_double A4_width (times_double 2 40)"

definition printableHeight :: real where
  "printableHeight = minus_double A4_height (times_double 2 40)"

definition specScale :: "real \<Rightarrow> real \<Rightarrow> real" where
  "specScale imageWidth imageHeight =
     min 1 (min (divide_double printableWidth imageWidth) (divide_double printableHeight imageHeight))"

text \<open>
  A file whose bytes do not parse or embed as their declared type; the exception that
  reading and decoding one file throws, if any; and the first exception thrown along a
  list.
\<close>

definition failsToDecode :: "PdfLib \<Rightarrow> UploadedFile \<Rightarrow> bool" where
  "failsToDecode lib f =
     (case fdata (ufile f) of
        None \<Rightarrow> False
      | Some b \<Rightarrow>
          (utype f = FileType_PDF \<and> isl (load lib b)) \<or>
          (utype f = FileType_PNG \<and> isl (embedPng lib b)) \<or>
          (utype f = FileType_JPEG \<and> isl (embedJpg lib b)))"

definition thrownBy :: "PdfLib \<Rightarrow> UploadedFile \<Rightarrow> error option" where
  "thrownBy lib f =
     (case fdata (ufile f) of
        None \<Rightarrow> Some FileReaderError
      | Some b \<Rightarrow>
          if utype f = FileType_PDF then
            (case load lib b of Inl msg \<Rightarrow> Some (PdfLibError msg) | Inr _ \<Rightarrow> None)
          else if utype f = FileType_PNG then
            (case embedPng lib b of Inl msg \<Rightarrow> Some (PdfLibError msg) | Inr _ \<Rightarrow> None)
          else if utype f = FileType_JPEG then
            (case embedJpg lib b of Inl msg \<Rightarrow> Some (PdfLibError msg) | Inr _ \<Rightarrow> None)
          else None)"

fun firstThrown :: "PdfLib \<Rightarrow> UploadedFile list \<Rightarrow> error option" where
  "firstThrown lib [] = None"
| "firstThrown lib (f # fs) =
     (case thrownBy lib f of Some e \<Rightarrow> Some e | None \<Rightarrow> firstThrown lib fs)"

definition payload :: "UploadedFile \<Rightarrow> string \<times> bytes option" where
  "payload f = (utype f, fdata (ufile f))"

definition unsupportedType :: "string \<Rightarrow> bool" where
  "unsupportedType t = (t \<noteq> FileType_PDF \<and> t \<noteq> FileType_PNG \<and> t \<noteq> FileType_JPEG)"



section \<open>A sample library and sample files\<close>

text \<open>
  A small library to run the routine on: a PDF is the byte \<open>0x25\<close> followed by one byte for
  each page, an image is a signature byte followed by its width and its height in two
  bytes each, and a serialised document is \<open>0x25\<close> followed by the number of drawings on
  each page.
\<close>

definition demoPage :: "8 word \<Rightarrow> PDFPage" where
  "demoPage c = \<lparr>pageWidth = 612, pageHeight = 792, contents = [SourceContent [c]]\<rparr>"

definition demoLoad :: "bytes \<Rightarrow> string + PDFDocument" where
  "demoLoad bs =
     (case bs of
        [] \<Rightarrow> Inl ''Failed to parse PDF document''
      | b # rest \<Rightarrow>
          if b = 0x25 then Inr \<lparr>pages = map demoPage rest, images = []\<rparr>
          else Inl ''Failed to parse PDF document'')"

definition demoEmbed :: "8 word \<Rightarrow> bytes \<Rightarrow> string + PDFImage" where
  "demoEmbed magic bs =
     (case bs of
        [m, w1, w0, h1, h0] \<Rightarrow>
          if m = magic
          then Inr \<lparr>imgWidth = 256 * ucast w1 + ucast w0, imgHeight = 256 * ucast h1 + ucast h0,
                    imgData = bs\<rparr>
          else Inl ''Unrecognised image signature''
      | _ \<Rightarrow> Inl ''Unrecognised image signature'')"

definition demoSerialize :: "PDFDocument \<Rightarrow> string + bytes" where
  "demoSerialize doc = Inr (0x25 # map (\<lambda>p. of_nat (length (contents p))) (pages doc))"

definition demoLib :: PdfLib where
  "demoLib = \<lparr>load = demoLoad, embedPng = demoEmbed 0x89, embedJpg = demoEmbed 0xFF,
               serialize = demoSerialize\<rparr>"

definition upload :: "string \<Rightarrow> string \<Rightarrow> string \<Rightarrow> bytes option \<Rightarrow> UploadedFile" where
  "upload i n t d =
     \<lparr>uid = i, ufile = \<lparr>fname = n, ftype = t, fsize = (case d of None \<Rightarrow> 0 | Some b \<Rightarrow> length b), fdata = d\<rparr>,
      uname = n, utype = t, usize = (case d of None \<Rightarrow> 0 | Some b \<Rightarrow> length b), previewUrl = None\<rparr>"

definition demoA :: UploadedFile where
  "demoA = upload ''id-a'' ''A.pdf'' FileType_PDF (Some [0x25, 1, 2])"
definition demoB :: UploadedFile where
  "demoB = upload ''id-b'' ''B.pdf'' FileType_PDF (Some [0x25, 3])"
definition demoC :: UploadedFile where
  "demoC = upload ''id-c'' ''C.pdf'' FileType_PDF (Some [0x25, 4])"
definition demoNoPages :: UploadedFile where
  "demoNoPages = upload ''id-z'' ''empty.pdf'' FileType_PDF (Some [0x25])"
definition demoPhoto :: UploadedFile where
  "demoPhoto = upload ''id-p'' ''photo.png'' FileType_PNG (Some [0x89, 4, 176, 6, 64])"
definition demoTall :: UploadedFile where
  "demoTall = upload ''id-s'' ''strip.png'' FileType_PNG (Some [0x89, 0, 10, 4, 71])"
definition photoImage :: PDFImage where
  "photoImage = \<lparr>imgWidth = 1200, imgHeight = 1600, imgData = [0x89, 4, 176, 6, 64]\<rparr>"
definition tallImage :: PDFImage where
  "tallImage = \<lparr>imgWidth = 10, imgHeight = 1095, imgData = [0x89, 0, 10, 4, 71]\<rparr>"
definition demoCorrupt :: "string \<Rightarrow> UploadedFile" where
  "demoCorrupt n = upload ''id-x'' n FileType_PDF (Some [0x00, 1])"
definition demoText :: UploadedFile where
  "demoText = upload ''id-t'' ''notes.txt'' ''text/plain'' (Some [0x68, 0x69])"



definition demoState :: AppState where
  "demoState = \<lparr>files = [demoA], status = \<lparr>isProcessing = False, message = [], error = None\<rparr>\<rparr>"

definition emptyState :: AppState where
  "emptyState = \<lparr>files = [], status = \<lparr>isProcessing = False, message = [], error = None\<rparr>\<rparr>"

text \<open>
  Two stores: one with two PDFs and the array of both, and one where the array comes first
  and lists a PDF and then a file that does not parse.
\<close>

definition demoHeap :: heap where
  "demoHeap = [FileRecord demoA, FileRecord demoB, FilesArray [0, 1]]"

definition corruptHeap :: heap where
  "corruptHeap = [FilesArray [2, 1], FileRecord (demoCorrupt ''broken.pdf''), FileRecord demoA]"

section \<open>Evaluation and basic facts\<close>

declare digits.simps [simp del]

declare floor_log2.simps [simp del]

declare mergeLoop_heap.simps [simp del]

lemmas demo_defs = demoLib_def demoLoad_def demoEmbed_def demoSerialize_def upload_def demoA_def demoB_def
  demoC_def demoNoPages_def demoPhoto_def demoTall_def demoCorrupt_def demoText_def demoPage_def
  FileType_PDF_def FileType_PNG_def FileType_JPG_def FileType_JPEG_def

lemma png_not_pdf: "FileType_PNG \<noteq> FileType_PDF" "FileType_JPEG \<noteq> FileType_PDF"
  "FileType_JPEG \<noteq> FileType_PNG" "FileType_JPG = FileType_JPEG"
  by (simp_all add: FileType_PDF_def FileType_PNG_def FileType_JPEG_def FileType_JPG_def)

lemma type_neq: "FileType_PDF \<noteq> FileType_PNG" "FileType_PDF \<noteq> FileType_JPEG"
  "FileType_PNG \<noteq> FileType_JPEG"
  by (simp_all add: FileType_PDF_def FileType_PNG_def FileType_JPEG_def)

lemma demoLib_sel: "load demoLib = demoLoad" "embedPng demoLib = demoEmbed 0x89"
  "embedJpg demoLib = demoEmbed 0xFF" "serialize demoLib = demoSerialize"
  by (simp_all add: demoLib_def)

lemma demo_parses: "parsesAsPdf demoLib demoA" "parsesAsPdf demoLib demoB" "parsesAsPdf demoLib demoC"
  "parsesAsPdf demoLib demoNoPages"
  by (simp_all add: parsesAsPdf_def demo_defs)

lemma demo_sourcePages:
  "sourcePages demoLib demoA = [demoPage 1, demoPage 2]" "sourcePages demoLib demoB = [demoPage 3]"
  "sourcePages demoLib demoC = [demoPage 4]" "sourcePages demoLib demoNoPages = []"
  by (simp_all add: sourcePages_def demoLib_def demoLoad_def demoA_def demoB_def demoC_def
      demoNoPages_def upload_def)


lemma copyPages_getPageIndices: "copyPages pdf (getPageIndices pdf) = pages pdf"
  by (simp add: copyPages_def getPageIndices_def map_nth)

lemma foldl_addPage: "foldl addPage doc ps = doc\<lparr>pages := pages doc @ ps\<rparr>"
  by (induction ps arbitrary: doc) (simp_all add: addPage_def)

lemma processFile_pdf:
  assumes "parsesAsPdf lib f"
  shows "processFile lib doc f = Inr (doc\<lparr>pages := pages doc @ sourcePages lib f\<rparr>)"
  using assms
  by (auto simp: parsesAsPdf_def sourcePages_def processFile_def readFileAsArrayBuffer_def
      copyPages_getPageIndices foldl_addPage split: option.splits sum.splits)

lemma mergeLoop_pdfs:
  assumes "\<forall>f\<in>set fs. parsesAsPdf lib f"
  shows "mergeLoop lib doc fs = Inr (doc\<lparr>pages := pages doc @ concat (map (sourcePages lib) fs)\<rparr>)"
  using assms
  by (induction fs arbitrary: doc) (simp_all add: processFile_pdf)

lemma mergeLoop_pdfs_create:
  assumes "\<forall>f\<in>set fs. parsesAsPdf lib f"
  shows "mergeLoop lib PDFDocument_create fs =
           Inr \<lparr>pages = concat (map (sourcePages lib) fs), images = []\<rparr>"
  using mergeLoop_pdfs [OF assms, of PDFDocument_create]
  by (simp add: PDFDocument_create_def)

lemma mergeLoop_append:
  "mergeLoop lib doc (xs @ ys) =
     (case mergeLoop lib doc xs of Inl e \<Rightarrow> Inl e | Inr doc' \<Rightarrow> mergeLoop lib doc' ys)"
  by (induction xs arbitrary: doc) (simp_all split: sum.splits)

lemma savedDocument_pages:
  "savedDocument \<lparr>pages = ps, images = is\<rparr> = \<lparr>pages = (if ps = [] then [blankA4] else ps), images = is\<rparr>"
  by (simp add: savedDocument_def addPageOfSize_def addPage_def PageSizes_A4_def blankA4_def
      A4_width_def A4_height_def)

lemma generateMergedPdf_serialized:
  assumes "mergeLoop lib PDFDocument_create fs = Inr \<lparr>pages = ps, images = is\<rparr>"
  shows "generateMergedPdf lib fs =
           serialized lib \<lparr>pages = (if ps = [] then [blankA4] else ps), images = is\<rparr>"
  using assms by (simp add: generateMergedPdf_def save_def serialized_def savedDocument_pages)

lemma demo_serialized:
  "serialized demoLib doc = Inr (0x25 # map (\<lambda>p. of_nat (length (contents p))) (pages doc))"
  by (simp add: serialized_def demoLib_sel demoSerialize_def)

lemma gen_demoA: "generateMergedPdf demoLib [demoA] = Inr [0x25, 1, 1]"
proof -
  have "\<forall>f\<in>set [demoA]. parsesAsPdf demoLib f"
    by (simp add: demo_parses)
  then show ?thesis
    using generateMergedPdf_serialized [OF mergeLoop_pdfs_create, of "[demoA]" demoLib]
    by (simp add: demo_sourcePages demo_serialized demoPage_def)
qed

section \<open>The merge routine on PDF records\<close>

text \<open>
  C1, amended: for a list of file records that is not empty, whose types are all PDF and
  whose bytes all parse, the routine returns the serialisation of a document whose pages
  are the concatenation of the inputs' pages, in list order and each input's own order,
  their number being the sum of the inputs' page counts; except that, when the inputs have
  no page at all, the document has one page, blank and of A4 size.
\<close>

theorem merge_pdfs_concat:
  assumes "fs \<noteq> []" and "\<forall>f\<in>set fs. parsesAsPdf lib f"
  shows "generateMergedPdf lib fs =
           serialized lib
             \<lparr>pages = (if concat (map (sourcePages lib) fs) = [] then [blankA4]
                       else concat (map (sourcePages lib) fs)),
              images = []\<rparr>
         \<and> length (concat (map (sourcePages lib) fs)) = sum_list (map (\<lambda>f. length (sourcePages lib f)) fs)"
proof -
  have l: "length (concat (map (sourcePages lib) fs)) = sum_list (map (\<lambda>f. length (sourcePages lib f)) fs)"
    by (simp add: length_concat comp_def)
  show ?thesis
    using generateMergedPdf_serialized [OF mergeLoop_pdfs_create [OF assms(2)]] l
    by simp
qed

theorem merge_pdfs_concat_witness:
  "[demoA, demoB] \<noteq> [] \<and> parsesAsPdf demoLib demoA \<and> parsesAsPdf demoLib demoB
   \<and> generateMergedPdf demoLib [demoA, demoB] =
       serialized demoLib \<lparr>pages = [demoPage 1, demoPage 2, demoPage 3], images = []\<rparr>
   \<and> length [demoPage 1, demoPage 2, demoPage 3] = 2 + 1
   \<and> generateMergedPdf demoLib [demoA, demoB] = Inr [0x25, 1, 1, 1]"
proof -
  have n: "[demoA, demoB] \<noteq> []" by simp
  have p: "\<forall>f\<in>set [demoA, demoB]. parsesAsPdf demoLib f"
    by (simp add: demo_parses)
  show ?thesis
    using merge_pdfs_concat [OF n p]
    by (simp add: demo_parses demo_sourcePages demo_serialized demoPage_def)
qed

text \<open>
  C1, as the specification states it, asks that the page count of the output is the sum of
  the inputs' page counts. With the sample library, the list of one valid PDF that has no
  page merges into a document of one page, the blank page that \<open>save\<close> gives a document
  without pages: the buffer returned, loaded again, has one page.
\<close>

theorem zero_page_pdf_counterexample:
  "[demoNoPages] \<noteq> [] \<and> parsesAsPdf demoLib demoNoPages
   \<and> sum_list (map (\<lambda>f. length (sourcePages demoLib f)) [demoNoPages]) = 0
   \<and> generateMergedPdf demoLib [demoNoPages] = serialized demoLib \<lparr>pages = [blankA4], images = []\<rparr>
   \<and> generateMergedPdf demoLib [demoNoPages] = Inr [0x25, 0]
   \<and> load demoLib [0x25, 0] = Inr \<lparr>pages = [demoPage 0], images = []\<rparr>"
proof -
  have p: "\<forall>f\<in>set [demoNoPages]. parsesAsPdf demoLib f"
    by (simp add: demo_parses)
  have g: "generateMergedPdf demoLib [demoNoPages] = serialized demoLib \<lparr>pages = [blankA4], images = []\<rparr>"
    using generateMergedPdf_serialized [OF mergeLoop_pdfs_create [OF p]]
    by (simp add: demo_sourcePages)
  have b: "serialized demoLib \<lparr>pages = [blankA4], images = []\<rparr> = Inr [0x25, 0]"
    by (simp add: demo_serialized blankA4_def)
  have l: "load demoLib [0x25, 0] = Inr \<lparr>pages = [demoPage 0], images = []\<rparr>"
    by (simp add: demoLib_sel demoLoad_def)
  show ?thesis
    using g b l by (simp add: demo_parses demo_sourcePages)
qed

text \<open>
  C6: for two valid PDF inputs \<open>a\<close> and \<open>b\<close> of one page each, the routine returns for
  the list \<open>[a, b]\<close> the serialisation of the document whose pages are the page of \<open>a\<close>
  and then the page of \<open>b\<close>, and for the list \<open>[b, a]\<close> the serialisation of the document
  whose page sequence is the reverse of that one.
\<close>

theorem merge_order_reversal:
  assumes "parsesAsPdf lib a" and "parsesAsPdf lib b"
    and "length (sourcePages lib a) = 1" and "length (sourcePages lib b) = 1"
  shows "generateMergedPdf lib [a, b] =
           serialized lib \<lparr>pages = sourcePages lib a @ sourcePages lib b, images = []\<rparr>
         \<and> generateMergedPdf lib [b, a] =
           serialized lib \<lparr>pages = rev (sourcePages lib a @ sourcePages lib b), images = []\<rparr>"
proof -
  obtain p where p: "sourcePages lib a = [p]"
    using assms(3) by (cases "sourcePages lib a") simp_all
  obtain q where q: "sourcePages lib b = [q]"
    using assms(4) by (cases "sourcePages lib b") simp_all
  have ab: "\<forall>f\<in>set [a, b]. parsesAsPdf lib f" and ba: "\<forall>f\<in>set [b, a]. parsesAsPdf lib f"
    using assms(1,2) by simp_all
  show ?thesis
    using generateMergedPdf_serialized [OF mergeLoop_pdfs_create [OF ab]]
      generateMergedPdf_serialized [OF mergeLoop_pdfs_create [OF ba]]
    by (simp add: p q)
qed

theorem merge_order_reversal_witness:
  "parsesAsPdf demoLib demoB \<and> parsesAsPdf demoLib demoC
   \<and> length (sourcePages demoLib demoB) = 1 \<and> length (sourcePages demoLib demoC) = 1
   \<and> generateMergedPdf demoLib [demoB, demoC] =
       serialized demoLib \<lparr>pages = [demoPage 3, demoPage 4], images = []\<rparr>
   \<and> generateMergedPdf demoLib [demoC, demoB] =
       serialized demoLib \<lparr>pages = [demoPage 4, demoPage 3], images = []\<rparr>"
proof -
  have l: "length (sourcePages demoLib demoB) = 1" "length (sourcePages demoLib demoC) = 1"
    by (simp_all add: demo_sourcePages)
  show ?thesis
    using merge_order_reversal [OF demo_parses(2,3) l]
    by (simp add: demo_parses demo_sourcePages)
qed

section \<open>The empty list, other types, and files that do not decode\<close>

text \<open>
  C3, as the specification states it, asks that the merge of the empty list fails with an
  \<open>EmptyInputError\<close> and returns no buffer. With the sample library the routine returns a
  buffer for the empty list.
\<close>

theorem empty_list_counterexample: "generateMergedPdf demoLib [] = Inr [0x25, 0]"
  by (simp add: generateMergedPdf_def PDFDocument_create_def save_def savedDocument_pages
      demoLib_sel demoSerialize_def blankA4_def)

text \<open>
  C3, amended: for the empty list the routine raises no error of its own. It saves the
  empty document it created and returns what the library's \<open>save\<close> makes of it; and
  \<open>handleMerge\<close>, run on an empty file list, returns at once, leaves the state as it is
  and reports nothing.
\<close>

theorem empty_list_saves_empty_document:
  "generateMergedPdf lib [] =
     (case save lib PDFDocument_create of Inl msg \<Rightarrow> Inl (PdfLibError msg) | Inr pdfBytes \<Rightarrow> Inr pdfBytes)
   \<and> handleMerge lib now \<lparr>files = [], status = st\<rparr> = (\<lparr>files = [], status = st\<rparr>, [])"
  by (simp add: generateMergedPdf_def handleMerge_def)

lemma processFile_unsupported:
  assumes "unsupportedType (utype f)" and "fdata (ufile f) = Some b"
  shows "processFile lib doc f = Inr doc"
  using assms
  by (simp add: processFile_def readFileAsArrayBuffer_def unsupportedType_def png_not_pdf)

text \<open>
  C4, as the specification states it, asks that a record whose declared type is none of
  PDF, PNG and JPEG makes the whole merge fail. With the sample library a list holding a
  text file merges without an error, into the document of the other file alone.
\<close>

theorem unsupported_type_counterexample:
  "unsupportedType (utype demoText) \<and> generateMergedPdf demoLib [demoA, demoText] = Inr [0x25, 1, 1]"
proof -
  have u: "unsupportedType (utype demoText)"
    by (simp add: unsupportedType_def demo_defs)
  have d: "fdata (ufile demoText) = Some [0x68, 0x69]"
    by (simp add: demoText_def upload_def)
  have "mergeLoop demoLib PDFDocument_create [demoA, demoText] =
          Inr \<lparr>pages = [demoPage 1, demoPage 2], images = []\<rparr>"
    using processFile_unsupported [OF u d, of demoLib] processFile_pdf [OF demo_parses(1), of PDFDocument_create]
    by (simp add: demo_sourcePages PDFDocument_create_def)
  then have "generateMergedPdf demoLib [demoA, demoText] = Inr [0x25, 1, 1]"
    using generateMergedPdf_serialized [of demoLib "[demoA, demoText]"]
    by (simp add: demo_serialized demoPage_def)
  then show ?thesis using u by simp
qed

text \<open>
  C4, amended: a record whose declared type is none of PDF, PNG and JPEG, and whose bytes
  can be read, is passed over: it leaves the document as it is, and the merge of a list
  that holds it is the merge of the list without it.
\<close>

theorem unsupported_type_skipped:
  assumes "unsupportedType (utype f)" and "fdata (ufile f) = Some b"
  shows "processFile lib doc f = Inr doc
         \<and> generateMergedPdf lib (xs @ f # ys) = generateMergedPdf lib (xs @ ys)"
proof -
  have "mergeLoop lib d (f # ys) = mergeLoop lib d ys" for d
    using processFile_unsupported [OF assms] by simp
  then have "mergeLoop lib PDFDocument_create (xs @ f # ys) = mergeLoop lib PDFDocument_create (xs @ ys)"
    by (simp add: mergeLoop_append split: sum.splits)
  then show ?thesis
    using processFile_unsupported [OF assms] by (simp add: generateMergedPdf_def)
qed

theorem unsupported_type_skipped_witness:
  "unsupportedType (utype demoText) \<and> fdata (ufile demoText) = Some [0x68, 0x69]
   \<and> processFile demoLib PDFDocument_create demoText = Inr PDFDocument_create
   \<and> generateMergedPdf demoLib ([demoA] @ demoText # [demoB]) = generateMergedPdf demoLib ([demoA] @ [demoB])"
proof -
  have u: "unsupportedType (utype demoText)"
    by (simp add: unsupportedType_def demo_defs)
  have d: "fdata (ufile demoText) = Some [0x68, 0x69]"
    by (simp add: demoText_def upload_def)
  show ?thesis
    using unsupported_type_skipped [OF u d, of demoLib PDFDocument_create "[demoA]" "[demoB]"] u d
    by simp
qed

lemma processFile_fails:
  assumes "failsToDecode lib f"
  shows "isl (processFile lib doc f)"
  using assms
  by (auto simp: failsToDecode_def processFile_def readFileAsArrayBuffer_def png_not_pdf type_neq isl_def
      split: option.splits)

lemma mergeLoop_fails:
  assumes "\<exists>f\<in>set fs. failsToDecode lib f"
  shows "isl (mergeLoop lib doc fs)"
  using assms
proof (induction fs arbitrary: doc)
  case Nil
  then show ?case by simp
next
  case (Cons g gs)
  show ?case
  proof (cases "processFile lib doc g")
    case (Inl e)
    then show ?thesis by simp
  next
    case (Inr doc')
    then have "\<not> failsToDecode lib g"
      using processFile_fails [of lib g doc] by auto
    then have "\<exists>f\<in>set gs. failsToDecode lib f"
      using Cons.prems by auto
    then show ?thesis
      using Cons.IH [of doc'] Inr by simp
  qed
qed

lemma processFile_payload:
  assumes "payload f = payload g"
  shows "processFile lib doc f = processFile lib doc g"
  using assms
  by (cases "fdata (ufile g)") (simp_all add: payload_def processFile_def readFileAsArrayBuffer_def)

lemma mergeLoop_payload:
  assumes "map payload fs = map payload gs"
  shows "mergeLoop lib doc fs = mergeLoop lib doc gs"
  using assms
proof (induction fs arbitrary: gs doc)
  case Nil
  then show ?case by simp
next
  case (Cons f fs)
  then obtain g gs' where g: "gs = g # gs'" "payload f = payload g" "map payload fs = map payload gs'"
    by (cases gs) auto
  show ?case
    using Cons.IH [OF g(3)] processFile_payload [OF g(2)]
    by (simp add: g(1) split: sum.splits)
qed

lemma processFile_thrown:
  "processFile lib doc f = Inl e \<longleftrightarrow> thrownBy lib f = Some e"
proof (cases "fdata (ufile f)")
  case None
  then show ?thesis
    by (auto simp: processFile_def thrownBy_def readFileAsArrayBuffer_def)
next
  case (Some b)
  consider "utype f = FileType_PDF" | "utype f = FileType_PNG" | "utype f = FileType_JPEG"
    | "unsupportedType (utype f)"
    by (auto simp: unsupportedType_def)
  then show ?thesis
  proof cases
    case 1
    then show ?thesis
      using Some
      by (cases "load lib b")
        (auto simp: processFile_def thrownBy_def readFileAsArrayBuffer_def Let_def)
  next
    case 2
    then show ?thesis
      using Some
      by (cases "embedPng lib b")
        (auto simp: processFile_def thrownBy_def readFileAsArrayBuffer_def png_not_pdf
          case_prod_beta Let_def)
  next
    case 3
    then show ?thesis
      using Some
      by (cases "embedJpg lib b")
        (auto simp: processFile_def thrownBy_def readFileAsArrayBuffer_def png_not_pdf
          case_prod_beta Let_def)
  next
    case 4
    then show ?thesis
      using Some
      by (auto simp: processFile_def thrownBy_def readFileAsArrayBuffer_def unsupportedType_def
          png_not_pdf)
  qed
qed

lemma mergeLoop_thrown:
  "mergeLoop lib doc fs = Inl e \<longleftrightarrow> firstThrown lib fs = Some e"
proof (induction fs arbitrary: doc)
  case Nil
  then show ?case by simp
next
  case (Cons f fs)
  show ?case
  proof (cases "processFile lib doc f")
    case (Inl e')
    then have "thrownBy lib f = Some e'"
      by (simp add: processFile_thrown)
    then show ?thesis using Inl by auto
  next
    case (Inr doc')
    have "thrownBy lib f = None"
    proof (cases "thrownBy lib f")
      case None
      then show ?thesis .
    next
      case (Some e')
      then have "processFile lib doc f = Inl e'"
        by (simp add: processFile_thrown)
      then show ?thesis using Inr by simp
    qed
    then show ?thesis
      using Inr Cons.IH [of doc'] by simp
  qed
qed

lemma generateMergedPdf_thrown:
  assumes "firstThrown lib fs = Some e"
  shows "generateMergedPdf lib fs = Inl e"
  using assms mergeLoop_thrown [of lib PDFDocument_create fs e]
  by (simp add: generateMergedPdf_def)

lemma demoCorrupt_fails: "failsToDecode demoLib (demoCorrupt n)"
  by (simp add: failsToDecode_def demo_defs)

lemma thrown_corrupt:
  "firstThrown demoLib [demoA, demoCorrupt n] = Some (PdfLibError ''Failed to parse PDF document'')"
  by (simp add: thrownBy_def demoA_def demoCorrupt_def upload_def demoLib_sel demoLoad_def FileType_PDF_def)

lemma gen_corrupt:
  "generateMergedPdf demoLib [demoA, demoCorrupt n] = Inl (PdfLibError ''Failed to parse PDF document'')"
  using generateMergedPdf_thrown [OF thrown_corrupt] .

text \<open>
  C5, as the specification states it, asks that the error of a failed merge is tagged with
  the name of the offending file. With the sample library two lists that differ only in
  the name of the corrupt file fail with one and the same error.
\<close>

theorem error_names_no_file_counterexample:
  "uname (demoCorrupt ''first.pdf'') = ''first.pdf'' \<and> uname (demoCorrupt ''second.pdf'') = ''second.pdf''
   \<and> generateMergedPdf demoLib [demoA, demoCorrupt ''first.pdf'']
       = Inl (PdfLibError ''Failed to parse PDF document'')
   \<and> generateMergedPdf demoLib [demoA, demoCorrupt ''second.pdf'']
       = Inl (PdfLibError ''Failed to parse PDF document'')"
  by (simp add: gen_corrupt) (simp add: demoCorrupt_def upload_def)

text \<open>
  C5, amended: when the bytes of some file of the list do not parse or embed as their
  declared type, the routine ends with an error and returns no buffer; the error is the
  first exception thrown along the list, by the reader or by the library, as it was
  thrown; and the outcome, the error included, is determined by the declared types and
  the bytes of the files alone, so that it carries no file name.
\<close>

theorem decode_failure_aborts:
  assumes "\<exists>f\<in>set fs. failsToDecode lib f"
  shows "isl (generateMergedPdf lib fs)
         \<and> (\<exists>e. firstThrown lib fs = Some e \<and> generateMergedPdf lib fs = Inl e)
         \<and> (\<forall>gs. map payload gs = map payload fs \<longrightarrow> generateMergedPdf lib gs = generateMergedPdf lib fs)"
proof -
  have "isl (mergeLoop lib PDFDocument_create fs)"
    using mergeLoop_fails [OF assms] .
  then obtain e where e: "mergeLoop lib PDFDocument_create fs = Inl e"
    by (cases "mergeLoop lib PDFDocument_create fs") simp_all
  then have t: "firstThrown lib fs = Some e"
    by (simp add: mergeLoop_thrown)
  have a: "generateMergedPdf lib fs = Inl e"
    using e by (simp add: generateMergedPdf_def)
  have b: "generateMergedPdf lib gs = generateMergedPdf lib fs" if "map payload gs = map payload fs" for gs
    using mergeLoop_payload [OF that] by (simp add: generateMergedPdf_def)
  have c: "\<exists>e. firstThrown lib fs = Some e \<and> generateMergedPdf lib fs = Inl e"
    using a t by blast
  have d: "isl (generateMergedPdf lib fs)"
    using a by simp
  show ?thesis using b c d by blast
qed

theorem decode_failure_aborts_witness:
  "failsToDecode demoLib (demoCorrupt ''first.pdf'')
   \<and> isl (generateMergedPdf demoLib [demoA, demoCorrupt ''first.pdf''])
   \<and> firstThrown demoLib [demoA, demoCorrupt ''first.pdf''] = Some (PdfLibError ''Failed to parse PDF document'')
   \<and> generateMergedPdf demoLib [demoA, demoCorrupt ''first.pdf''] = Inl (PdfLibError ''Failed to parse PDF document'')
   \<and> map payload [demoA, demoCorrupt ''second.pdf''] = map payload [demoA, demoCorrupt ''first.pdf'']
   \<and> generateMergedPdf demoLib [demoA, demoCorrupt ''second.pdf'']
       = generateMergedPdf demoLib [demoA, demoCorrupt ''first.pdf'']"
proof -
  have e: "\<exists>f\<in>set [demoA, demoCorrupt ''first.pdf'']. failsToDecode demoLib f"
    by (simp add: demoCorrupt_fails)
  have p: "map payload [demoA, demoCorrupt ''second.pdf''] = map payload [demoA, demoCorrupt ''first.pdf'']"
    by (simp add: payload_def demoCorrupt_def upload_def)
  show ?thesis
    using decode_failure_aborts [OF e] p demoCorrupt_fails thrown_corrupt [of "''first.pdf''"]
    by auto
qed

section \<open>The ordered file list\<close>














lemma arrayMove_empty: "arrayMove [] (- 1) (- 1) = [None]"
  by (simp add: arrayMove_def splice_start_def)






lemma count_list_filter:
  "count_list (filter P xs) x = (if P x then count_list xs x else 0)"
  by (induction xs) auto

text \<open>
  C9: \<open>removeFile\<close> removes every record with the given id and no other: a record
  with that id no longer occurs, any other record occurs as often as before, the records
  left stand in the order they had, and a list without that id is unchanged.
\<close>

theorem removeFile_exact:
  "count_list (removeFile i fs) f = (if uid f = i then 0 else count_list fs f)
   \<and> subseq (removeFile i fs) fs
   \<and> (i \<notin> set (map uid fs) \<longrightarrow> removeFile i fs = fs)"
proof -
  have a: "count_list (removeFile i fs) f = (if uid f = i then 0 else count_list fs f)"
    by (simp add: removeFile_def count_list_filter)
  have b: "subseq (removeFile i fs) fs"
    by (simp add: removeFile_def)
  have c: "i \<notin> set (map uid fs) \<longrightarrow> removeFile i fs = fs"
    by (auto simp: removeFile_def filter_id_conv)
  show ?thesis using a b c by blast
qed

theorem removeFile_exact_witness:
  "removeFile ''id-a'' [demoA, demoB, demoA] = [demoB]
   \<and> count_list (removeFile ''id-a'' [demoA, demoB, demoA]) demoA = 0
   \<and> count_list (removeFile ''id-a'' [demoA, demoB, demoA]) demoB = count_list [demoA, demoB, demoA] demoB
   \<and> subseq (removeFile ''id-a'' [demoA, demoB, demoA]) [demoA, demoB, demoA]
   \<and> ''id-z'' \<notin> set (map uid [demoA, demoB])
   \<and> removeFile ''id-z'' [demoA, demoB] = [demoA, demoB]"
proof -
  have u: "uid demoA = ''id-a''" "uid demoB = ''id-b''"
    by (simp_all add: demoA_def demoB_def upload_def)
  show ?thesis
    using removeFile_exact [of "''id-a''" "[demoA, demoB, demoA]" demoA]
      removeFile_exact [of "''id-a''" "[demoA, demoB, demoA]" demoB]
      removeFile_exact [of "''id-z''" "[demoA, demoB]" demoA]
    by (simp add: u removeFile_def)
qed

section \<open>handleMerge\<close>

lemma demo_merge_run:
  "handleMerge demoLib 1700000000000 demoState =
     (demoState\<lparr>status := \<lparr>isProcessing = False, message = msgDone, error = None\<rparr>\<rparr>,
      [SetStatus \<lparr>isProcessing = True, message = msgProcessing, error = None\<rparr>,
       Call_generateMergedPdf [demoA],
       SetStatus \<lparr>isProcessing = True, message = msgFinalizing, error = None\<rparr>,
       Call_downloadPdf [0x25, 1, 1] ''fusion_documento_1700000000000.pdf'',
       SetStatus \<lparr>isProcessing = False, message = msgDone, error = None\<rparr>,
       SetTimeout 5000 \<lparr>isProcessing = False, message = [], error = None\<rparr>])"
  by (simp add: handleMerge_def demoState_def gen_demoA Let_def toString_def digits.simps)

text \<open>
  C10: on an empty file list \<open>handleMerge\<close> returns at once: the state, and so the
  processing status, is unchanged, and nothing is called, neither the merge routine nor
  \<open>downloadPdf\<close>. Whenever \<open>handleMerge\<close> does call the merge routine, it is on the file
  list of the state and that list is not empty.
\<close>

theorem empty_list_guard:
  "(files s = [] \<longrightarrow> handleMerge lib now s = (s, []))
   \<and> (Call_generateMergedPdf fs \<in> set (snd (handleMerge lib now s)) \<longrightarrow> fs = files s \<and> fs \<noteq> [])"
  by (auto simp: handleMerge_def Let_def split: sum.splits if_splits)

theorem empty_list_guard_witness:
  "files emptyState = []
   \<and> handleMerge demoLib 1700000000000 emptyState = (emptyState, [])
   \<and> Call_generateMergedPdf [demoA] \<in> set (snd (handleMerge demoLib 1700000000000 demoState))
   \<and> [demoA] = files demoState \<and> [demoA] \<noteq> []"
proof -
  have e: "files emptyState = []"
    by (simp add: emptyState_def)
  have c: "Call_generateMergedPdf [demoA] \<in> set (snd (handleMerge demoLib 1700000000000 demoState))"
    by (simp add: handleMerge_def demoState_def gen_demoA Let_def)
  have f: "[demoA] = files demoState"
    by (simp add: demoState_def)
  have n: "[demoA] \<noteq> []"
    by simp
  show ?thesis
    using empty_list_guard [of emptyState demoLib 1700000000000 "[demoA]"] e c f n
    by blast
qed

section \<open>Rounding to a double\<close>

lemma pow2_powi: "pow2 e = 2 powi e"
  by (auto simp: pow2_def power_int_def inverse_eq_divide power_divide)

lemma pow2_pos: "0 < pow2 e"
  by (simp add: pow2_powi)

lemma pow2_mono: "a \<le> b \<Longrightarrow> pow2 a \<le> pow2 b"
  by (simp add: pow2_powi power_int_increasing)

lemma pow2_less_imp_less: "pow2 a < pow2 b \<Longrightarrow> a < b"
  using pow2_mono [of b a] by (cases "a < b") auto

lemma pow2_add: "pow2 (a + b) = pow2 a * pow2 b"
  by (simp add: pow2_powi power_int_add)

lemma pow2_nonpos: "e \<le> 0 \<Longrightarrow> pow2 e = 1 / 2 ^ nat (- e)"
  by (cases "e = 0") (simp_all add: pow2_def)

lemma pow2_nat: "pow2 (int n) = 2 ^ n"
  by (simp add: pow2_def)

lemma floor_log2_lower: "floor_log2 x lo hi = lo \<or> pow2 (floor_log2 x lo hi) \<le> x"
proof (induction x lo hi rule: floor_log2.induct)
  case (1 x lo hi)
  show ?case
  proof (cases "hi \<le> lo + 1")
    case True
    then show ?thesis by (simp add: floor_log2.simps)
  next
    case False
    show ?thesis
    proof (cases "pow2 ((lo + hi) div 2) \<le> x")
      case True
      then have "floor_log2 x lo hi = floor_log2 x ((lo + hi) div 2) hi"
        using False by (subst floor_log2.simps) (simp add: Let_def)
      then show ?thesis
        using "1.IH"(1) [OF False refl True] True by auto
    next
      case nle: False
      then have "floor_log2 x lo hi = floor_log2 x lo ((lo + hi) div 2)"
        using False by (subst floor_log2.simps) (simp add: Let_def)
      then show ?thesis
        using "1.IH"(2) [OF False refl nle] by auto
    qed
  qed
qed

lemma floor_log2_upper:
  "lo < hi \<Longrightarrow> x < pow2 hi \<Longrightarrow> x < pow2 (floor_log2 x lo hi + 1)"
proof (induction x lo hi rule: floor_log2.induct)
  case (1 x lo hi)
  show ?case
  proof (cases "hi \<le> lo + 1")
    case True
    then have "hi = lo + 1" using "1.prems"(1) by simp
    then show ?thesis using "1.prems"(2) by (simp add: floor_log2.simps)
  next
    case False
    then have m: "lo < (lo + hi) div 2" "(lo + hi) div 2 < hi"
      by auto
    show ?thesis
    proof (cases "pow2 ((lo + hi) div 2) \<le> x")
      case True
      then have "floor_log2 x lo hi = floor_log2 x ((lo + hi) div 2) hi"
        using False by (subst floor_log2.simps) (simp add: Let_def)
      then show ?thesis
        using "1.IH"(1) [OF False refl True m(2) "1.prems"(2)] by simp
    next
      case nle: False
      then have "floor_log2 x lo hi = floor_log2 x lo ((lo + hi) div 2)"
        using False by (subst floor_log2.simps) (simp add: Let_def)
      then show ?thesis
        using "1.IH"(2) [OF False refl nle m(1)] nle by simp
    qed
  qed
qed

lemma round_half_even_cases:
  "round_half_even z = \<lfloor>z\<rfloor> \<and> z - of_int \<lfloor>z\<rfloor> \<le> 1 / 2
   \<or> round_half_even z = \<lfloor>z\<rfloor> + 1 \<and> 1 / 2 \<le> z - of_int \<lfloor>z\<rfloor>"
  unfolding round_half_even_def Let_def by (simp add: not_less)

lemma round_half_even_of_int: "round_half_even (of_int m) = m"
  unfolding round_half_even_def Let_def by simp

lemma round_half_even_le:
  assumes "z \<le> of_int m"
  shows "round_half_even z \<le> m"
proof -
  have k: "\<lfloor>z\<rfloor> \<le> m" using assms by (simp add: floor_le_iff)
  from round_half_even_cases [of z] show ?thesis
  proof
    assume "round_half_even z = \<lfloor>z\<rfloor> \<and> z - of_int \<lfloor>z\<rfloor> \<le> 1 / 2"
    then show ?thesis using k by simp
  next
    assume h: "round_half_even z = \<lfloor>z\<rfloor> + 1 \<and> 1 / 2 \<le> z - of_int \<lfloor>z\<rfloor>"
    then have "real_of_int \<lfloor>z\<rfloor> < real_of_int m" using assms by linarith
    then have "\<lfloor>z\<rfloor> < m" by (simp only: of_int_less_iff)
    then show ?thesis using h by simp
  qed
qed

lemma round_half_even_near: "\<bar>of_int (round_half_even z) - z\<bar> \<le> 1 / 2"
proof -
  have f: "of_int \<lfloor>z\<rfloor> \<le> z" "z < of_int \<lfloor>z\<rfloor> + 1" by linarith+
  from round_half_even_cases [of z] show ?thesis
  proof
    assume h: "round_half_even z = \<lfloor>z\<rfloor> \<and> z - of_int \<lfloor>z\<rfloor> \<le> 1 / 2"
    then have "of_int (round_half_even z) - z = of_int \<lfloor>z\<rfloor> - z" by simp
    then show ?thesis using h f by linarith
  next
    assume h: "round_half_even z = \<lfloor>z\<rfloor> + 1 \<and> 1 / 2 \<le> z - of_int \<lfloor>z\<rfloor>"
    then have "of_int (round_half_even z) - z = of_int \<lfloor>z\<rfloor> + 1 - z" by simp
    then show ?thesis using h f by linarith
  qed
qed

lemma round_half_even_nonneg:
  assumes "0 \<le> z"
  shows "0 \<le> round_half_even z"
proof -
  have "0 \<le> \<lfloor>z\<rfloor>" using assms by simp
  then show ?thesis using round_half_even_cases [of z] by auto
qed

lemma round_double_pos:
  assumes "0 < x"
  shows "round_double x =
           of_int (round_half_even (x / pow2 (max (floor_log2 x (- 1075) 1024) (- 1022) - 52)))
             * pow2 (max (floor_log2 x (- 1075) 1024) (- 1022) - 52)"
  using assms by (simp add: round_double_def Let_def)

lemma exponent_le:
  assumes "0 < x" and "x < pow2 53"
  shows "max (floor_log2 x (- 1075) 1024) (- 1022) \<le> 52"
proof -
  have "floor_log2 x (- 1075) 1024 \<le> 52"
  proof (rule ccontr)
    assume "\<not> floor_log2 x (- 1075) 1024 \<le> 52"
    then have g: "53 \<le> floor_log2 x (- 1075) 1024" by simp
    then have "pow2 (floor_log2 x (- 1075) 1024) \<le> x"
      using floor_log2_lower [of x "- 1075" 1024] by auto
    moreover have "pow2 53 \<le> pow2 (floor_log2 x (- 1075) 1024)"
      using g by (rule pow2_mono)
    ultimately show False using assms(2) by simp
  qed
  then show ?thesis by simp
qed

lemma scaled_nat:
  assumes "E \<le> 52"
  shows "pow2 (E - 52) * 2 ^ nat (52 - E) = 1"
proof -
  have "pow2 (E - 52) = 1 / 2 ^ nat (52 - E)"
    using assms pow2_nonpos [of "E - 52"] by simp
  then show ?thesis by simp
qed

lemma round_double_le_nat:
  assumes "0 \<le> x" and "x \<le> real n" and "real n < pow2 53"
  shows "round_double x \<le> real n"
proof (cases "x = 0")
  case True
  then show ?thesis by (simp add: round_double_def)
next
  case False
  then have pos: "0 < x" using assms(1) by simp
  have lt: "x < pow2 53" using assms(2,3) by simp
  define E where "E = max (floor_log2 x (- 1075) 1024) (- 1022)"
  define c :: real where "c = 2 ^ nat (52 - E)"
  define q where "q = pow2 (E - 52)"
  have E: "E \<le> 52" unfolding E_def using exponent_le [OF pos lt] .
  have qc: "q * c = 1" unfolding q_def c_def using scaled_nat [OF E] .
  have qpos: "0 < q" unfolding q_def by (rule pow2_pos)
  have cpos: "0 < c" unfolding c_def by simp
  have c: "c = 1 / q" using qc qpos by (simp add: field_simps)
  have "x / q = x * c" by (simp add: c)
  also have "\<dots> \<le> real n * c" using assms(2) cpos by simp
  also have "\<dots> = of_int (int n * 2 ^ nat (52 - E))" by (simp add: c_def)
  finally have "round_half_even (x / q) \<le> int n * 2 ^ nat (52 - E)"
    by (rule round_half_even_le)
  then have "real_of_int (round_half_even (x / q)) \<le> real_of_int (int n * 2 ^ nat (52 - E))"
    by (simp only: of_int_le_iff)
  also have "\<dots> = real n * c" by (simp add: c_def)
  finally have "real_of_int (round_half_even (x / q)) * q \<le> real n * c * q"
    using qpos by simp
  also have "\<dots> = real n" using qc by (simp add: mult.assoc mult.commute)
  finally show ?thesis
    using round_double_pos [OF pos] by (simp add: E_def q_def)
qed

lemma round_double_nat:
  assumes "real n < pow2 53"
  shows "round_double (real n) = real n"
proof (cases "n = 0")
  case True
  then show ?thesis by (simp add: round_double_def)
next
  case False
  then have pos: "0 < real n" by simp
  define E where "E = max (floor_log2 (real n) (- 1075) 1024) (- 1022)"
  define c :: real where "c = 2 ^ nat (52 - E)"
  define q where "q = pow2 (E - 52)"
  have E: "E \<le> 52" unfolding E_def using exponent_le [OF pos assms] .
  have qc: "q * c = 1" unfolding q_def c_def using scaled_nat [OF E] .
  have qpos: "0 < q" unfolding q_def by (rule pow2_pos)
  have c: "c = 1 / q" using qc qpos by (simp add: field_simps)
  have "real n / q = real n * c" by (simp add: c)
  also have "\<dots> = of_int (int n * 2 ^ nat (52 - E))" by (simp add: c_def)
  finally have "round_half_even (real n / q) = int n * 2 ^ nat (52 - E)"
    by (simp only: round_half_even_of_int)
  then have "real_of_int (round_half_even (real n / q)) = real n * c"
    by (simp add: c_def)
  then have "real_of_int (round_half_even (real n / q)) * q = real n * c * q"
    by simp
  also have "\<dots> = real n" using qc by (simp add: mult.assoc mult.commute)
  finally show ?thesis
    using round_double_pos [OF pos] by (simp add: E_def q_def)
qed

lemma round_double_nonneg:
  assumes "0 \<le> x"
  shows "0 \<le> round_double x"
proof (cases "x = 0")
  case True
  then show ?thesis by (simp add: round_double_def)
next
  case False
  then have pos: "0 < x" using assms by simp
  define q where "q = pow2 (max (floor_log2 x (- 1075) 1024) (- 1022) - 52)"
  have qpos: "0 < q" unfolding q_def by (rule pow2_pos)
  then have "0 \<le> x / q" using pos by simp
  then have "0 \<le> round_half_even (x / q)"
    by (rule round_half_even_nonneg)
  then have "0 \<le> real_of_int (round_half_even (x / q)) * q"
    using qpos by simp
  then show ?thesis
    using round_double_pos [OF pos] by (simp add: q_def)
qed

lemma word32_double:
  fixes w :: "32 word"
  shows "real (unat w) < pow2 53"
proof -
  have "unat w < 2 ^ 32" using unsigned_less [of w] by simp
  then have "real (unat w) < 2 ^ 32"
    by (metis of_nat_less_iff of_nat_numeral of_nat_power)
  also have "(2::real) ^ 32 < pow2 53" by (simp add: pow2_def)
  finally show ?thesis .
qed

lemma round_double_error:
  assumes "pow2 (- 1022) \<le> x" and "x < pow2 1024"
  shows "\<bar>round_double x - x\<bar> \<le> x / 2 ^ 53"
proof -
  have pos: "0 < x" using assms(1) pow2_pos [of "- 1022"] by linarith
  define e where "e = floor_log2 x (- 1075) 1024"
  define q where "q = pow2 (e - 52)"
  have "x < pow2 (e + 1)"
    unfolding e_def using floor_log2_upper [of "- 1075" 1024 x] assms(2) by simp
  then have "pow2 (- 1022) < pow2 (e + 1)" using assms(1) by linarith
  then have e: "- 1022 \<le> e" using pow2_less_imp_less [of "- 1022" "e + 1"] by simp
  then have low: "pow2 e \<le> x"
    using floor_log2_lower [of x "- 1075" 1024] by (auto simp: e_def)
  have m: "max e (- 1022) = e" using e by simp
  have qpos: "0 < q" unfolding q_def by (rule pow2_pos)
  have "q = pow2 e * pow2 (- 52)"
    unfolding q_def using pow2_add [of e "- 52"] by simp
  also have "pow2 (- 52) = 1 / 2 ^ 52" by (simp add: pow2_def)
  finally have q: "q = pow2 e / 2 ^ 52" by simp
  then have qx: "q \<le> x / 2 ^ 52" using low by (simp add: divide_right_mono)
  have rd: "round_double x = of_int (round_half_even (x / q)) * q"
    using round_double_pos [OF pos] by (simp add: e_def [symmetric] m q_def)
  have "round_double x - x = (of_int (round_half_even (x / q)) - x / q) * q"
    using qpos by (simp add: rd field_simps)
  then have "\<bar>round_double x - x\<bar> = \<bar>of_int (round_half_even (x / q)) - x / q\<bar> * q"
    using qpos by (simp add: abs_mult)
  also have "\<dots> \<le> (1 / 2) * q"
    using round_half_even_near [of "x / q"] qpos by (simp only: mult_right_mono less_imp_le)
  also have "\<dots> \<le> (1 / 2) * (x / 2 ^ 52)"
    using qx by simp
  also have "\<dots> = x / 2 ^ 53" by simp
  finally show ?thesis .
qed

text \<open>A quotient of a printable extent by a positive dimension of 32 bits, and its rounding.\<close>

lemma quotient_rounding:
  fixes a n :: real
  assumes n1: "1 \<le> n" and n2: "n < 2 ^ 32" and "1 \<le> a" and "a \<le> 1024"
  shows "a / n / 2 \<le> divide_double a n"
    and "divide_double a n \<le> a / n * (1 + 1 / 2 ^ 53)"
proof -
  have lo: "1 / 2 ^ 32 \<le> a / n"
  proof -
    have "1 / 2 ^ 32 \<le> 1 / n" using n1 n2 by (simp add: field_simps)
    also have "\<dots> \<le> a / n" using assms(3) n1 by (simp add: divide_right_mono)
    finally show ?thesis .
  qed
  have hi: "a / n \<le> 1024"
  proof -
    have "a / n \<le> a / 1" using n1 assms(3) by (intro divide_left_mono) simp_all
    then show ?thesis using assms(4) by simp
  qed
  have "pow2 (- 1022) \<le> pow2 (- 32)" by (rule pow2_mono) simp
  also have "pow2 (- 32) = 1 / 2 ^ 32" by (simp add: pow2_def)
  finally have "pow2 (- 1022) \<le> 1 / 2 ^ 32" .
  then have r1: "pow2 (- 1022) \<le> a / n" using lo by (rule order_trans)
  have "(1024::real) < pow2 11" by (simp add: pow2_def)
  also have "pow2 11 \<le> pow2 1024" by (rule pow2_mono) simp
  finally have "(1024::real) < pow2 1024" .
  with hi have r2: "a / n < pow2 1024" by (rule le_less_trans)
  have pos: "0 < a / n" using n1 assms(3) by simp
  have err: "\<bar>round_double (a / n) - a / n\<bar> \<le> a / n / 2 ^ 53"
    using round_double_error [OF r1 r2] .
  have half: "a / n / 2 ^ 53 \<le> a / n / 2"
    using pos by (intro divide_left_mono) simp_all
  have "a / n - a / n / 2 ^ 53 \<le> round_double (a / n)"
    using err by (simp only: abs_le_iff) linarith
  then have "a / n - a / n / 2 \<le> round_double (a / n)"
    using half by linarith
  then show "a / n / 2 \<le> divide_double a n"
    by (simp add: divide_double_def)
  have "round_double (a / n) \<le> a / n + a / n / 2 ^ 53"
    using err by (simp only: abs_le_iff) linarith
  then show "divide_double a n \<le> a / n * (1 + 1 / 2 ^ 53)"
    by (simp add: divide_double_def algebra_simps)
qed

text \<open>A product of a dimension of 32 bits and a scale factor, and its rounding.\<close>

lemma product_rounding:
  fixes n s :: real
  assumes n1: "1 \<le> n" and n2: "n < 2 ^ 32" and s1: "1 / 2 ^ 33 \<le> s" and s2: "s \<le> 1"
  shows "times_double n s \<le> n * s * (1 + 1 / 2 ^ 53)"
proof -
  have "1 / 2 ^ 33 \<le> 1 * s" using s1 by simp
  also have "\<dots> \<le> n * s" using n1 s1 by (intro mult_right_mono) simp_all
  finally have lo: "1 / 2 ^ 33 \<le> n * s" .
  have "n * s \<le> n * 1" using s2 n1 by (intro mult_left_mono) simp_all
  then have hi: "n * s < 2 ^ 32" using n2 by simp
  have "pow2 (- 1022) \<le> pow2 (- 33)" by (rule pow2_mono) simp
  also have "pow2 (- 33) = 1 / 2 ^ 33" by (simp add: pow2_def)
  finally have "pow2 (- 1022) \<le> 1 / 2 ^ 33" .
  then have r1: "pow2 (- 1022) \<le> n * s" using lo by (rule order_trans)
  have "(2::real) ^ 32 = pow2 32" by (simp add: pow2_def)
  also have "pow2 32 \<le> pow2 1024" by (rule pow2_mono) simp
  finally have "(2::real) ^ 32 \<le> pow2 1024" .
  with hi have r2: "n * s < pow2 1024" by (rule less_le_trans)
  have err: "\<bar>round_double (n * s) - n * s\<bar> \<le> n * s / 2 ^ 53"
    using round_double_error [OF r1 r2] .
  have "round_double (n * s) \<le> n * s + n * s / 2 ^ 53"
    using err by (simp only: abs_le_iff) linarith
  then show ?thesis
    by (simp add: times_double_def algebra_simps)
qed

section \<open>The merge routine on image records\<close>

lemma A4_doubles:
  "A4_width = 2618069127129989 / 4398046511104"
  "A4_height = 7405342754466693 / 8796093022208"
  by code_simp+

lemma margin_doubles:
  "times_double 40 2 = 80"
  "times_double 2 40 = 80"
  by code_simp+

lemma printable_doubles:
  "minus_double (2618069127129989 / 4398046511104) 80 = 2266225406241669 / 4398046511104"
  "minus_double (7405342754466693 / 8796093022208) 80 = 6701655312690053 / 8796093022208"
  by code_simp+

lemma quotients_tall:
  "divide_double (2266225406241669 / 4398046511104) 10 = 7251921299973341 / 140737488355328"
  "divide_double (6701655312690053 / 8796093022208) 1095 = 3133559379084299 / 4503599627370496"
  by code_simp+

lemma products_tall:
  "times_double 10 (3133559379084299 / 4503599627370496) = 1958474611927687 / 281474976710656"
  "times_double 1095 (3133559379084299 / 4503599627370496) = 3350827656345027 / 4398046511104"
  by code_simp+

lemma offsets_tall:
  "minus_double (2618069127129989 / 4398046511104) (1958474611927687 / 281474976710656) = 2587467961318619 / 4398046511104"
  "minus_double (7405342754466693 / 8796093022208) (3350827656345027 / 4398046511104) = 703687441776639 / 8796093022208"
  "divide_double (2587467961318619 / 4398046511104) 2 = 2587467961318619 / 8796093022208"
  "divide_double (703687441776639 / 8796093022208) 2 = 703687441776639 / 17592186044416"
  by code_simp+

lemma quotients_photo:
  "divide_double (2266225406241669 / 4398046511104) 1200 = 1933845679992891 / 4503599627370496"
  "divide_double (6701655312690053 / 8796093022208) 1600 = 2144529700060817 / 4503599627370496"
  by code_simp+

lemma products_photo:
  "times_double 1200 (1933845679992891 / 4503599627370496) = 2266225406241669 / 4398046511104"
  "times_double 1600 (1933845679992891 / 4503599627370496) = 755408468747223 / 1099511627776"
  by code_simp+

lemma offsets_photo:
  "minus_double (2618069127129989 / 4398046511104) (2266225406241669 / 4398046511104) = 80"
  "minus_double (7405342754466693 / 8796093022208) (755408468747223 / 1099511627776) = 1362075004488909 / 8796093022208"
  "divide_double (80) 2 = 40"
  "divide_double (1362075004488909 / 8796093022208) 2 = 1362075004488909 / 17592186044416"
  by code_simp+

lemma processFile_image:
  assumes "embedsAs lib f img"
  shows "processFile lib doc f =
           (case imagePlacement PageSizes_A4 img of (x, y, w, h) \<Rightarrow>
              Inr (doc\<lparr>pages := pages doc @
                       [\<lparr>pageWidth = fst PageSizes_A4, pageHeight = snd PageSizes_A4,
                         contents = [DrawImage img x y w h]\<rparr>],
                     images := images doc @ [img]\<rparr>))"
proof -
  obtain b where b: "fdata (ufile f) = Some b"
    and e: "(utype f = FileType_PNG \<and> embedPng lib b = Inr img) \<or>
            (utype f = FileType_JPEG \<and> embedJpg lib b = Inr img)"
    using assms by (auto simp: embedsAs_def split: option.splits)
  have sz: "getSize (addPage (registerImage doc img)
              \<lparr>pageWidth = fst PageSizes_A4, pageHeight = snd PageSizes_A4, contents = []\<rparr>)
              (length (pages doc)) = PageSizes_A4"
    by (simp add: getSize_def addPage_def registerImage_def)
  from e show ?thesis
  proof
    assume "utype f = FileType_PNG \<and> embedPng lib b = Inr img"
    then show ?thesis
      using b sz
      by (simp add: processFile_def readFileAsArrayBuffer_def png_not_pdf addPageOfSize_def
          registerImage_def addPage_def drawImage_def split: prod.splits)
  next
    assume "utype f = FileType_JPEG \<and> embedJpg lib b = Inr img"
    then show ?thesis
      using b sz
      by (simp add: processFile_def readFileAsArrayBuffer_def png_not_pdf addPageOfSize_def
          registerImage_def addPage_def drawImage_def split: prod.splits)
  qed
qed

lemma dims_doubles:
  "times_double 10 1 = 10" "times_double 1095 1 = 1095" "times_double 1200 1 = 1200"
  "times_double 1600 1 = 1600"
  by code_simp+

lemma PageSizes_A4_doubles: "PageSizes_A4 = (A4_width, A4_height)"
  by (simp add: PageSizes_A4_def A4_width_def A4_height_def)

lemma placement_tall:
  "imagePlacement PageSizes_A4 tallImage =
     (2587467961318619 / 8796093022208, 703687441776639 / 17592186044416,
      1958474611927687 / 281474976710656, 3350827656345027 / 4398046511104)"
  unfolding PageSizes_A4_doubles A4_doubles
  by (simp add: tallImage_def imagePlacement_def Let_def scale_image_def divide_number_def margin_doubles
      printable_doubles quotients_tall products_tall offsets_tall dims_doubles)

lemma placement_photo:
  "imagePlacement PageSizes_A4 photoImage =
     (40, 1362075004488909 / 17592186044416,
      2266225406241669 / 4398046511104, 755408468747223 / 1099511627776)"
  unfolding PageSizes_A4_doubles A4_doubles
  by (simp add: photoImage_def imagePlacement_def Let_def scale_image_def divide_number_def margin_doubles
      printable_doubles quotients_photo products_photo offsets_photo dims_doubles)

lemma demo_embeds:
  "embedsAs demoLib demoPhoto photoImage" "embedsAs demoLib demoTall tallImage"
  by (simp_all add: embedsAs_def demo_defs photoImage_def tallImage_def)

lemma printable_extents:
  "printableWidth = 2266225406241669 / 4398046511104"
  "printableHeight = 6701655312690053 / 8796093022208"
  by (simp_all add: printableWidth_def printableHeight_def A4_doubles margin_doubles printable_doubles)

lemma imagePlacement_A4:
  fixes img :: PDFImage
  defines "w \<equiv> real (unat (imgWidth img))" and "h \<equiv> real (unat (imgHeight img))"
  assumes "0 < unat (imgWidth img)" and "0 < unat (imgHeight img)"
  shows "imagePlacement PageSizes_A4 img =
     (divide_double (minus_double A4_width (times_double w (specScale w h))) 2,
      divide_double (minus_double A4_height (times_double h (specScale w h))) 2,
      times_double w (specScale w h),
      times_double h (specScale w h))"
proof -
  have w1: "times_double w 1 = w" and h1: "times_double h 1 = h"
    unfolding w_def h_def times_double_def
    using round_double_nat [OF word32_double] by simp_all
  have w0: "w \<noteq> 0" and h0: "h \<noteq> 0"
    unfolding w_def h_def using assms(3,4) by (simp_all del: of_nat_unat)
  have m: "times_double 40 2 = times_double 2 40"
    by (simp add: times_double_def)
  have "Math_min (divide_number (minus_double A4_width (times_double 40 2)) w)
             (divide_number (minus_double A4_height (times_double 40 2)) h) 1
           = specScale w h"
    using w0 h0
    by (simp add: divide_number_def specScale_def printableWidth_def printableHeight_def m
        min.commute min.left_commute)
  then show ?thesis
    using w1 h1
    by (simp add: imagePlacement_def scale_image_def Let_def PageSizes_A4_doubles
        w_def [symmetric] h_def [symmetric] del: of_nat_unat)
qed

lemma image_document:
  assumes "embedsAs lib f img"
  shows "generateMergedPdf lib [f] =
           (case imagePlacement PageSizes_A4 img of (x, y, dw, dh) \<Rightarrow>
              serialized lib
                \<lparr>pages = [\<lparr>pageWidth = A4_width, pageHeight = A4_height,
                            contents = [DrawImage img x y dw dh]\<rparr>],
                 images = [img]\<rparr>)"
proof -
  obtain x y dw dh where p: "imagePlacement PageSizes_A4 img = (x, y, dw, dh)"
    by (cases "imagePlacement PageSizes_A4 img") auto
  have "mergeLoop lib PDFDocument_create [f] =
          Inr \<lparr>pages = [\<lparr>pageWidth = A4_width, pageHeight = A4_height,
                            contents = [DrawImage img x y dw dh]\<rparr>],
               images = [img]\<rparr>"
    using processFile_image [OF assms, of PDFDocument_create] unfolding p
    by (simp add: PDFDocument_create_def PageSizes_A4_doubles)
  then show ?thesis
    using generateMergedPdf_serialized [of lib "[f]"] by (simp add: p)
qed

lemma scale_bounds:
  fixes w h :: real
  assumes "1 \<le> w" and "w < 2 ^ 32" and "1 \<le> h" and "h < 2 ^ 32"
  shows "1 / 2 ^ 33 \<le> specScale w h" and "specScale w h \<le> 1"
    and "specScale w h \<le> printableWidth / w * (1 + 1 / 2 ^ 53)"
    and "specScale w h \<le> printableHeight / h * (1 + 1 / 2 ^ 53)"
proof -
  have pw: "1 \<le> printableWidth" "printableWidth \<le> 1024"
    and ph: "1 \<le> printableHeight" "printableHeight \<le> 1024"
    by (simp_all add: printable_extents)
  note qw = quotient_rounding [OF assms(1,2) pw]
  note qh = quotient_rounding [OF assms(3,4) ph]
  have "1 / 2 ^ 32 \<le> printableWidth / w"
  proof -
    have "1 / 2 ^ 32 \<le> 1 / w" using assms(1,2) by (simp add: field_simps)
    also have "\<dots> \<le> printableWidth / w" using pw(1) assms(1) by (simp add: divide_right_mono)
    finally show ?thesis .
  qed
  then have "1 / 2 ^ 32 / 2 \<le> printableWidth / w / 2"
    by (rule divide_right_mono) simp
  then have "1 / 2 ^ 32 / 2 \<le> divide_double printableWidth w"
    using qw(1) by (rule order_trans)
  moreover have "(1::real) / 2 ^ 32 / 2 = 1 / 2 ^ 33"
    by simp
  ultimately have lw: "1 / 2 ^ 33 \<le> divide_double printableWidth w"
    by (simp only:)
  have "1 / 2 ^ 32 \<le> printableHeight / h"
  proof -
    have "1 / 2 ^ 32 \<le> 1 / h" using assms(3,4) by (simp add: field_simps)
    also have "\<dots> \<le> printableHeight / h" using ph(1) assms(3) by (simp add: divide_right_mono)
    finally show ?thesis .
  qed
  then have "1 / 2 ^ 32 / 2 \<le> printableHeight / h / 2"
    by (rule divide_right_mono) simp
  then have "1 / 2 ^ 32 / 2 \<le> divide_double printableHeight h"
    using qh(1) by (rule order_trans)
  moreover have "(1::real) / 2 ^ 32 / 2 = 1 / 2 ^ 33"
    by simp
  ultimately have lh: "1 / 2 ^ 33 \<le> divide_double printableHeight h"
    by (simp only:)
  show "1 / 2 ^ 33 \<le> specScale w h"
    using lw lh by (simp add: specScale_def)
  show "specScale w h \<le> 1"
    by (simp add: specScale_def)
  have "specScale w h \<le> divide_double printableWidth w"
    by (simp add: specScale_def)
  then show "specScale w h \<le> printableWidth / w * (1 + 1 / 2 ^ 53)"
    using qw(2) by (rule order_trans)
  have "specScale w h \<le> divide_double printableHeight h"
    by (simp add: specScale_def)
  then show "specScale w h \<le> printableHeight / h * (1 + 1 / 2 ^ 53)"
    using qh(2) by (rule order_trans)
qed

lemma displayed_bounds:
  fixes w a s :: real
  assumes w1: "1 \<le> w" and w2: "w < 2 ^ 32" and s1: "1 / 2 ^ 33 \<le> s" and s2: "s \<le> 1"
    and sa: "s \<le> a / w * (1 + 1 / 2 ^ 53)"
  shows "times_double w s \<le> a * (1 + 1 / 2 ^ 53)\<^sup>2"
proof -
  have "times_double w s \<le> w * s * (1 + 1 / 2 ^ 53)"
    using product_rounding [OF w1 w2 s1 s2] .
  also have "\<dots> \<le> w * (a / w * (1 + 1 / 2 ^ 53)) * (1 + 1 / 2 ^ 53)"
    using sa w1 by (intro mult_right_mono mult_left_mono) simp_all
  also have "\<dots> = a * (1 + 1 / 2 ^ 53)\<^sup>2"
    using w1 by (simp add: power2_eq_square)
  finally show ?thesis .
qed

lemma word32_range:
  fixes x :: "32 word"
  assumes "0 < unat x"
  shows "1 \<le> real (unat x)" and "real (unat x) < 2 ^ 32"
proof -
  have "1 \<le> unat x" using assms by simp
  then show "1 \<le> real (unat x)" by (metis of_nat_1 of_nat_le_iff)
  have "unat x < 2 ^ 32" using unsigned_less [of x] by simp
  then show "real (unat x) < 2 ^ 32"
    by (metis of_nat_less_iff of_nat_numeral of_nat_power)
qed

text \<open>
  C2, amended: a list of one valid PNG or JPEG image, of natural dimensions \<open>w\<close> by \<open>h\<close>,
  both positive, yields the serialisation of a document of exactly one page of the A4
  reference size, with the image drawn on it once: both dimensions multiplied by
  \<open>s = min(1, (pageWidth - 2*40)/w, (pageHeight - 2*40)/h)\<close>, at
  \<open>((pageWidth - w*s)/2, (pageHeight - h*s)/2)\<close>, each operation being that of double
  arithmetic. The factor is positive and at most 1 and the image is not scaled up; the
  displayed dimensions exceed the printable extents by no more than the two roundings of
  a quotient and a product allow, a factor of \<open>(1 + 2^-53)^2\<close>.
\<close>

theorem single_image_page:
  fixes lib :: PdfLib and f :: UploadedFile and img :: PDFImage
  defines "w \<equiv> real (unat (imgWidth img))" and "h \<equiv> real (unat (imgHeight img))"
  defines "s \<equiv> specScale (real (unat (imgWidth img))) (real (unat (imgHeight img)))"
  assumes "embedsAs lib f img" and "0 < unat (imgWidth img)" and "0 < unat (imgHeight img)"
  shows "generateMergedPdf lib [f] =
           serialized lib
             \<lparr>pages = [\<lparr>pageWidth = A4_width, pageHeight = A4_height,
                        contents = [DrawImage img
                                      (divide_double (minus_double A4_width (times_double w s)) 2)
                                      (divide_double (minus_double A4_height (times_double h s)) 2)
                                      (times_double w s) (times_double h s)]\<rparr>],
              images = [img]\<rparr>
         \<and> 0 < s \<and> s \<le> 1
         \<and> times_double w s \<le> w \<and> times_double h s \<le> h
         \<and> times_double w s \<le> printableWidth * (1 + 1 / 2 ^ 53)\<^sup>2
         \<and> times_double h s \<le> printableHeight * (1 + 1 / 2 ^ 53)\<^sup>2"
proof -
  have w: "1 \<le> w" "w < 2 ^ 32" unfolding w_def using word32_range [OF assms(5)] .
  have h: "1 \<le> h" "h < 2 ^ 32" unfolding h_def using word32_range [OF assms(6)] .
  have s': "s = specScale w h" by (simp only: s_def w_def h_def)
  note sb = scale_bounds [OF w h, folded s']
  have g: "generateMergedPdf lib [f] =
           serialized lib
             \<lparr>pages = [\<lparr>pageWidth = A4_width, pageHeight = A4_height,
                        contents = [DrawImage img
                                      (divide_double (minus_double A4_width (times_double w s)) 2)
                                      (divide_double (minus_double A4_height (times_double h s)) 2)
                                      (times_double w s) (times_double h s)]\<rparr>],
              images = [img]\<rparr>"
    using image_document [OF assms(4)] imagePlacement_A4 [OF assms(5,6)]
    by (simp only: w_def h_def s_def prod.case)
  have spos: "0 < s" using sb(1) by (smt (verit) divide_pos_pos zero_less_power)
  have s0: "0 \<le> s" using spos by simp
  define nw where "nw = unat (imgWidth img)"
  define nh where "nh = unat (imgHeight img)"
  have wn: "w = real nw" and hn: "h = real nh"
    by (simp_all only: w_def h_def nw_def nh_def)
  have uw: "times_double w s \<le> w"
    unfolding times_double_def wn
  proof (rule round_double_le_nat)
    show "0 \<le> real nw * s" using s0 by simp
    show "real nw * s \<le> real nw" using sb(2) by (simp add: mult_left_le)
    show "real nw < pow2 53" using word32_double [of "imgWidth img"] by (simp only: nw_def)
  qed
  have uh: "times_double h s \<le> h"
    unfolding times_double_def hn
  proof (rule round_double_le_nat)
    show "0 \<le> real nh * s" using s0 by simp
    show "real nh * s \<le> real nh" using sb(2) by (simp add: mult_left_le)
    show "real nh < pow2 53" using word32_double [of "imgHeight img"] by (simp only: nh_def)
  qed
  have bw: "times_double w s \<le> printableWidth * (1 + 1 / 2 ^ 53)\<^sup>2"
    using displayed_bounds [OF w sb(1,2,3)] .
  have bh: "times_double h s \<le> printableHeight * (1 + 1 / 2 ^ 53)\<^sup>2"
    using displayed_bounds [OF h sb(1,2,4)] .
  show ?thesis
    using g spos sb(2) uw uh bw bh by blast
qed

lemma photo_numbers:
  "specScale 1200 1600 = 1933845679992891 / 4503599627370496"
  "times_double 1200 (1933845679992891 / 4503599627370496) = 2266225406241669 / 4398046511104"
  "times_double 1600 (1933845679992891 / 4503599627370496) = 755408468747223 / 1099511627776"
  "divide_double (minus_double A4_width (2266225406241669 / 4398046511104)) 2 = 40"
  "divide_double (minus_double A4_height (755408468747223 / 1099511627776)) 2
     = 1362075004488909 / 17592186044416"
  by (simp_all add: specScale_def printable_extents quotients_photo products_photo A4_doubles offsets_photo)

lemma photo_dims:
  "real (unat (imgWidth photoImage)) = 1200" "real (unat (imgHeight photoImage)) = 1600"
  "0 < unat (imgWidth photoImage)" "0 < unat (imgHeight photoImage)"
  by (simp_all add: photoImage_def)

theorem single_image_page_witness:
  "embedsAs demoLib demoPhoto photoImage
   \<and> 0 < unat (imgWidth photoImage) \<and> 0 < unat (imgHeight photoImage)
   \<and> generateMergedPdf demoLib [demoPhoto] =
       serialized demoLib
         \<lparr>pages = [\<lparr>pageWidth = A4_width, pageHeight = A4_height,
                    contents = [DrawImage photoImage 40 (1362075004488909 / 17592186044416)
                                  (2266225406241669 / 4398046511104)
                                  (755408468747223 / 1099511627776)]\<rparr>],
          images = [photoImage]\<rparr>
   \<and> (2266225406241669 / 4398046511104 :: real) \<le> 1200
   \<and> (755408468747223 / 1099511627776 :: real) \<le> 1600
   \<and> (2266225406241669 / 4398046511104 :: real) \<le> printableWidth * (1 + 1 / 2 ^ 53)\<^sup>2
   \<and> (755408468747223 / 1099511627776 :: real) \<le> printableHeight * (1 + 1 / 2 ^ 53)\<^sup>2"
  using single_image_page [OF demo_embeds(1) photo_dims(3,4)]
  unfolding photo_dims(1,2) photo_numbers
  using demo_embeds(1) photo_dims(3,4) by blast

text \<open>
  C2, as the specification states it, asks that the image never exceeds the printable
  area. JavaScript computes in doubles: with the sample library, an image of 10 by 1095
  pixels is drawn with a height above the printable height \<open>pageHeight - 2*40\<close>, by one
  unit in the last place (761.8900000000001 for 761.89), at a vertical offset below the
  margin of 40.
\<close>

theorem rounded_height_counterexample:
  "embedsAs demoLib demoTall tallImage
   \<and> generateMergedPdf demoLib [demoTall] =
       serialized demoLib
         \<lparr>pages = [\<lparr>pageWidth = A4_width, pageHeight = A4_height,
                    contents = [DrawImage tallImage (2587467961318619 / 8796093022208)
                                  (703687441776639 / 17592186044416)
                                  (1958474611927687 / 281474976710656)
                                  (3350827656345027 / 4398046511104)]\<rparr>],
          images = [tallImage]\<rparr>
   \<and> printableHeight < 3350827656345027 / 4398046511104
   \<and> A4_height - 2 * 40 < 3350827656345027 / 4398046511104
   \<and> (761.89 :: real) < 3350827656345027 / 4398046511104
   \<and> (703687441776639 / 17592186044416 :: real) < 40"
proof -
  have g: "generateMergedPdf demoLib [demoTall] =
       serialized demoLib
         \<lparr>pages = [\<lparr>pageWidth = A4_width, pageHeight = A4_height,
                    contents = [DrawImage tallImage (2587467961318619 / 8796093022208)
                                  (703687441776639 / 17592186044416)
                                  (1958474611927687 / 281474976710656)
                                  (3350827656345027 / 4398046511104)]\<rparr>],
          images = [tallImage]\<rparr>"
    using image_document [OF demo_embeds(2)] by (simp only: placement_tall prod.case)
  have n: "printableHeight < 3350827656345027 / 4398046511104"
    "A4_height - 2 * 40 < 3350827656345027 / 4398046511104"
    "(761.89 :: real) < 3350827656345027 / 4398046511104"
    "(703687441776639 / 17592186044416 :: real) < 40"
    by (simp_all add: A4_doubles printable_extents)
  show ?thesis
    using g n demo_embeds(2) by blast
qed

section \<open>The merge routine and the store\<close>

lemma mergeLoop_heap_frame:
  "n \<le> mergedPdf \<Longrightarrow> take n (snd (mergeLoop_heap lib mergedPdf filesRef i h)) = take n h"
proof (induction lib mergedPdf filesRef i h rule: mergeLoop_heap.induct)
  case (1 lib mergedPdf filesRef i h)
  show ?case
  proof (cases "objectAt h filesRef")
    case None
    then show ?thesis by (subst mergeLoop_heap.simps) simp
  next
    case (Some ob)
    show ?thesis
    proof (cases ob)
      case (FilesArray items)
      show ?thesis
      proof (cases "i < length items")
        case False
        then show ?thesis using Some FilesArray by (subst mergeLoop_heap.simps) simp
      next
        case True
        show ?thesis
        proof (cases "objectAt h (items ! i)")
          case None
          then show ?thesis using Some FilesArray True by (subst mergeLoop_heap.simps) simp
        next
          case r: (Some ob')
          show ?thesis
          proof (cases ob')
            case (FileRecord fileItem)
            show ?thesis
            proof (cases "objectAt h mergedPdf")
              case None
              then show ?thesis using Some FilesArray True r FileRecord
                by (subst mergeLoop_heap.simps) simp
            next
              case d: (Some ob'')
              show ?thesis
              proof (cases ob'')
                case (Document doc)
                show ?thesis
                proof (cases "processFile lib doc fileItem")
                  case (Inl e)
                  then show ?thesis using Some FilesArray True r FileRecord d Document
                    by (subst mergeLoop_heap.simps) simp
                next
                  case (Inr doc')
                  have "take n (snd (mergeLoop_heap lib mergedPdf filesRef (i + 1) (h[mergedPdf := Document doc'])))
                          = take n (h[mergedPdf := Document doc'])"
                    using "1.IH" [OF Some FilesArray True refl r FileRecord d Document Inr "1.prems"] .
                  also have "\<dots> = take n h"
                    using "1.prems" by simp
                  finally show ?thesis using Some FilesArray True r FileRecord d Document Inr
                    by (subst mergeLoop_heap.simps) simp
                qed
              qed (use Some FilesArray True r FileRecord d in \<open>subst mergeLoop_heap.simps, simp\<close>)+
            qed
          qed (use Some FilesArray True r in \<open>subst mergeLoop_heap.simps, simp\<close>)+
        qed
      qed
    qed (use Some in \<open>subst mergeLoop_heap.simps, simp\<close>)+
  qed
qed

lemma objectAt_extends:
  assumes "take (length h) h' = h" and "objectAt h a = Some ob"
  shows "objectAt h' a = Some ob"
proof -
  have a: "a < length h" and ob: "h ! a = ob"
    using assms(2) by (auto simp: objectAt_def split: if_splits)
  have "length h \<le> length h'"
    using assms(1) by (metis length_take min.cobounded1)
  moreover have "h' ! a = take (length h) h' ! a"
    using a by simp
  ultimately show ?thesis
    using a ob assms(1) by (simp add: objectAt_def)
qed

lemma filesOf_items:
  assumes "filesOf h filesRef = Some fs"
  shows "\<exists>items. objectAt h filesRef = Some (FilesArray items) \<and> length fs = length items
           \<and> (\<forall>k<length items. objectAt h (items ! k) = Some (FileRecord (fs ! k)))"
proof -
  obtain items where i: "objectAt h filesRef = Some (FilesArray items)"
    using assms by (auto simp: filesOf_def split: option.splits object.splits)
  have all: "list_all (\<lambda>a. case objectAt h a of Some (FileRecord r) \<Rightarrow> True | _ \<Rightarrow> False) items"
    and fs: "fs = map (\<lambda>a. case objectAt h a of Some (FileRecord r) \<Rightarrow> r) items"
    using assms i by (auto simp: filesOf_def split: if_splits)
  have "objectAt h (items ! k) = Some (FileRecord (fs ! k))" if "k < length items" for k
  proof -
    have "case objectAt h (items ! k) of Some (FileRecord r) \<Rightarrow> True | _ \<Rightarrow> False"
      using all that by (simp add: list_all_length)
    then obtain r where "objectAt h (items ! k) = Some (FileRecord r)"
      by (auto split: option.splits object.splits)
    then show ?thesis using that by (simp add: fs)
  qed
  then show ?thesis using i fs by auto
qed

lemma filesOf_extends:
  assumes "take (length h) h' = h" and "filesOf h filesRef = Some fs"
  shows "filesOf h' filesRef = Some fs"
proof -
  obtain items where i: "objectAt h filesRef = Some (FilesArray items)"
    and l: "length fs = length items"
    and r: "\<forall>k<length items. objectAt h (items ! k) = Some (FileRecord (fs ! k))"
    using filesOf_items [OF assms(2)] by blast
  have i': "objectAt h' filesRef = Some (FilesArray items)"
    using objectAt_extends [OF assms(1) i] .
  have r': "objectAt h' (items ! k) = Some (FileRecord (fs ! k))" if "k < length items" for k
    using objectAt_extends [OF assms(1)] r that by blast
  have "list_all (\<lambda>a. case objectAt h' a of Some (FileRecord r) \<Rightarrow> True | _ \<Rightarrow> False) items"
    using r' by (simp add: list_all_length)
  moreover have "map (\<lambda>a. case objectAt h' a of Some (FileRecord r) \<Rightarrow> r) items = fs"
    using r' l by (simp add: list_eq_iff_nth_eq)
  ultimately show ?thesis
    using i' by (simp add: filesOf_def)
qed

lemma mergeLoop_heap_refines:
  assumes "filesOf h filesRef = Some fs"
    and "objectAt h filesRef = Some (FilesArray items)"
    and "objectAt h mergedPdf = Some (Document doc)"
    and "mergedPdf \<noteq> filesRef" and "mergedPdf \<notin> set items"
    and "i \<le> length items"
  shows "case mergeLoop lib doc (drop i fs) of
           Inl e \<Rightarrow> fst (mergeLoop_heap lib mergedPdf filesRef i h) = Some (Inl e)
         | Inr doc' \<Rightarrow>
             fst (mergeLoop_heap lib mergedPdf filesRef i h) = Some (Inr ())
             \<and> objectAt (snd (mergeLoop_heap lib mergedPdf filesRef i h)) mergedPdf = Some (Document doc')"
  using assms
proof (induction "length items - i" arbitrary: i h doc)
  case 0
  then have "i = length items" by simp
  moreover have "length fs = length items"
    using filesOf_items [OF "0.prems"(1)] "0.prems"(2) by auto
  ultimately show ?case
    using "0.prems"(2,3) by (subst (1 2) mergeLoop_heap.simps) simp
next
  case (Suc n)
  then have i: "i < length items" by simp
  obtain l: "length fs = length items"
    and r: "\<forall>k<length items. objectAt h (items ! k) = Some (FileRecord (fs ! k))"
    using filesOf_items [OF Suc.prems(1)] Suc.prems(2) by auto
  have rec: "objectAt h (items ! i) = Some (FileRecord (fs ! i))"
    using r i by simp
  have d: "drop i fs = fs ! i # drop (Suc i) fs"
    using i l by (simp add: Cons_nth_drop_Suc)
  show ?case
  proof (cases "processFile lib doc (fs ! i)")
    case (Inl e)
    then show ?thesis
      using Suc.prems(2,3) i rec d by (subst mergeLoop_heap.simps) simp
  next
    case (Inr doc')
    define h' where "h' = h[mergedPdf := Document doc']"
    have len: "mergedPdf < length h"
      using Suc.prems(3) by (simp add: objectAt_def split: if_splits)
    have same: "objectAt h' a = objectAt h a" if "a \<noteq> mergedPdf" for a
      using that by (simp add: objectAt_def h'_def)
    have a1: "objectAt h' filesRef = Some (FilesArray items)"
      using same [of filesRef] Suc.prems(2,4) by simp
    have a2: "objectAt h' mergedPdf = Some (Document doc')"
      using len by (simp add: objectAt_def h'_def)
    have r': "objectAt h' (items ! k) = Some (FileRecord (fs ! k))" if "k < length items" for k
    proof -
      have "items ! k \<noteq> mergedPdf" using Suc.prems(5) that by auto
      then show ?thesis using same r that by simp
    qed
    have "list_all (\<lambda>a. case objectAt h' a of Some (FileRecord r) \<Rightarrow> True | _ \<Rightarrow> False) items"
      using r' by (simp add: list_all_length)
    moreover have "map (\<lambda>a. case objectAt h' a of Some (FileRecord r) \<Rightarrow> r) items = fs"
      using r' l by (simp add: list_eq_iff_nth_eq)
    ultimately have a0: "filesOf h' filesRef = Some fs"
      using a1 by (simp add: filesOf_def)
    have n: "n = length items - Suc i" using Suc.hyps(2) by simp
    have le: "Suc i \<le> length items" using i by simp
    have step: "mergeLoop_heap lib mergedPdf filesRef i h = mergeLoop_heap lib mergedPdf filesRef (Suc i) h'"
      using Suc.prems(2,3) i rec Inr by (subst mergeLoop_heap.simps) (simp add: h'_def)
    show ?thesis
      using Suc.hyps(1) [OF n a0 a1 a2 Suc.prems(4,5) le] Inr
      unfolding step by (simp add: d split: sum.splits)
  qed
qed

text \<open>
  C8: run on a store, the merge routine changes no object that the store held before the
  call, whether it returns a buffer or throws: all it does to the store is to allocate
  the document it builds. When the array it is given holds file records, its outcome is
  that of the routine on the list of these records, and afterwards the array stands for
  the same records, in the same order.
\<close>

theorem merge_leaves_file_list:
  "take (length h) (snd (generateMergedPdf_heap lib filesRef h)) = h
   \<and> (filesOf h filesRef = Some fs \<longrightarrow>
        fst (generateMergedPdf_heap lib filesRef h) = Some (generateMergedPdf lib fs)
        \<and> filesOf (snd (generateMergedPdf_heap lib filesRef h)) filesRef = Some fs)"
proof -
  define h1 where "h1 = h @ [Document PDFDocument_create]"
  define run where "run = mergeLoop_heap lib (length h) filesRef 0 h1"
  have g: "take (length h) (snd (generateMergedPdf_heap lib filesRef h)) = take (length h) (snd run)"
    by (simp add: generateMergedPdf_heap_def Let_def run_def h1_def
        split: prod.splits option.splits sum.splits object.splits)
  have "take (length h) (snd run) = take (length h) h1"
    unfolding run_def by (rule mergeLoop_heap_frame) simp
  then have frame: "take (length h) (snd (generateMergedPdf_heap lib filesRef h)) = h"
    by (simp add: g h1_def)
  have "fst (generateMergedPdf_heap lib filesRef h) = Some (generateMergedPdf lib fs)
        \<and> filesOf (snd (generateMergedPdf_heap lib filesRef h)) filesRef = Some fs"
    if f: "filesOf h filesRef = Some fs"
  proof -
    obtain items where i: "objectAt h filesRef = Some (FilesArray items)"
      and r: "\<forall>k<length items. objectAt h (items ! k) = Some (FileRecord (fs ! k))"
      using filesOf_items [OF f] by blast
    have t: "take (length h) h1 = h" by (simp add: h1_def)
    have f1: "filesOf h1 filesRef = Some fs" using filesOf_extends [OF t f] .
    have i1: "objectAt h1 filesRef = Some (FilesArray items)" using objectAt_extends [OF t i] .
    have d1: "objectAt h1 (length h) = Some (Document PDFDocument_create)"
      by (simp add: objectAt_def h1_def)
    have n1: "length h \<noteq> filesRef"
      using i by (auto simp: objectAt_def split: if_splits)
    have n2: "length h \<notin> set items"
    proof
      assume "length h \<in> set items"
      then obtain k where "k < length items" "items ! k = length h"
        by (auto simp: in_set_conv_nth)
      then have "objectAt h (length h) = Some (FileRecord (fs ! k))" using r by auto
      then show False by (simp add: objectAt_def)
    qed
    note ref = mergeLoop_heap_refines [OF f1 i1 d1 n1 n2, of 0 lib, folded run_def]
    have res: "fst (generateMergedPdf_heap lib filesRef h) = Some (generateMergedPdf lib fs)"
    proof (cases "mergeLoop lib PDFDocument_create fs")
      case (Inl e)
      then have "fst run = Some (Inl e)" using ref by simp
      then obtain h2 where "run = (Some (Inl e), h2)" by (cases run) simp
      then show ?thesis
        using Inl
        by (simp add: generateMergedPdf_heap_def generateMergedPdf_def Let_def run_def [symmetric]
            h1_def [symmetric])
    next
      case (Inr doc)
      then have "fst run = Some (Inr ())" and "objectAt (snd run) (length h) = Some (Document doc)"
        using ref by simp_all
      then obtain h2 where "run = (Some (Inr ()), h2)" "objectAt h2 (length h) = Some (Document doc)"
        by (cases run) simp
      then show ?thesis
        using Inr
        by (simp add: generateMergedPdf_heap_def generateMergedPdf_def Let_def run_def [symmetric]
            h1_def [symmetric] split: sum.splits)
    qed
    have "filesOf (snd (generateMergedPdf_heap lib filesRef h)) filesRef = Some fs"
      using filesOf_extends [OF frame f] .
    then show ?thesis using res by simp
  qed
  then show ?thesis using frame by blast
qed

lemma demo_filesOf:
  "filesOf demoHeap 2 = Some [demoA, demoB]"
  "filesOf corruptHeap 0 = Some [demoA, demoCorrupt ''broken.pdf'']"
  by (simp_all add: filesOf_def objectAt_def demoHeap_def corruptHeap_def)

lemma gen_demoAB: "generateMergedPdf demoLib [demoA, demoB] = Inr [0x25, 1, 1, 1]"
proof -
  have "\<forall>f\<in>set [demoA, demoB]. parsesAsPdf demoLib f"
    by (simp add: demo_parses)
  then show ?thesis
    using generateMergedPdf_serialized [OF mergeLoop_pdfs_create, of "[demoA, demoB]" demoLib]
    by (simp add: demo_sourcePages demo_serialized demoPage_def)
qed

theorem merge_leaves_file_list_witness:
  "filesOf demoHeap 2 = Some [demoA, demoB]
   \<and> fst (generateMergedPdf_heap demoLib 2 demoHeap) = Some (Inr [0x25, 1, 1, 1])
   \<and> take (length demoHeap) (snd (generateMergedPdf_heap demoLib 2 demoHeap)) = demoHeap
   \<and> filesOf (snd (generateMergedPdf_heap demoLib 2 demoHeap)) 2 = Some [demoA, demoB]
   \<and> filesOf corruptHeap 0 = Some [demoA, demoCorrupt ''broken.pdf'']
   \<and> fst (generateMergedPdf_heap demoLib 0 corruptHeap) = Some (Inl (PdfLibError ''Failed to parse PDF document''))
   \<and> take (length corruptHeap) (snd (generateMergedPdf_heap demoLib 0 corruptHeap)) = corruptHeap
   \<and> filesOf (snd (generateMergedPdf_heap demoLib 0 corruptHeap)) 0 = Some [demoA, demoCorrupt ''broken.pdf'']"
  using merge_leaves_file_list [of demoHeap demoLib 2 "[demoA, demoB]"]
    merge_leaves_file_list [of corruptHeap demoLib 0 "[demoA, demoCorrupt ''broken.pdf'']"]
    demo_filesOf gen_demoAB gen_corrupt [of "''broken.pdf''"]
  by simp

end
